theory Spec2Isabelle
  imports Complex_Main "HOL-Library.Char_ord" "HOL-Library.List_Lexorder"
    "HOL-Library.Product_Lexorder"
begin

section \<open>JavaScript numbers\<close>

text \<open>
  The server computes with JavaScript numbers, IEEE 754 double precision. A number is
  modelled as \<open>NaN\<close>, \<open>+Infinity\<close>, \<open>-Infinity\<close>, the negative zero, or a finite value
  \<open>Fin x\<close>, \<open>Fin 0\<close> being the positive zero. Addition, subtraction, multiplication,
  division and square root give the exact result rounded to the nearest double, ties to
  the even mantissa, overflowing to an infinity; what they do with the special values
  and with the sign of a zero is written out.
\<close>

datatype jsnum = NaN | PInf | NInf | NZero | Fin real

text \<open>Rounding to the nearest integer, a tie to the even one.\<close>

definition round_even :: "real \<Rightarrow> int" where
  "round_even r =
     (let f = \<lfloor>r\<rfloor>
      in if r - of_int f < 1 / 2 then f
         else if 1 / 2 < r - of_int f then f + 1
         else if even f then f else f + 1)"

text \<open>
  The doubles around \<open>x\<close> are the multiples of \<open>2 ^ exponent x\<close>: 53 bits of mantissa for a
  normal number, the fixed step \<open>2^-1074\<close> for a subnormal one. \<open>round_grid\<close> rounds the
  magnitude to that grid, \<open>round_double\<close> adds the overflow at \<open>2^1024\<close> and the negative
  zero of a negative number that rounds to zero.
\<close>

definition exponent :: "real \<Rightarrow> int" where
  "exponent x = max (\<lfloor>log 2 \<bar>x\<bar>\<rfloor> - 52) (- 1074)"

definition round_grid :: "real \<Rightarrow> real" where
  "round_grid x =
     sgn x * (of_int (round_even (\<bar>x\<bar> / 2 powi exponent x)) * 2 powi exponent x)"

definition round_double :: "real \<Rightarrow> jsnum" where
  "round_double x =
     (if 2 ^ 1024 \<le> \<bar>round_grid x\<bar> then (if 0 < x then PInf else NInf)
      else if round_grid x = 0 \<and> x < 0 then NZero
      else Fin (round_grid x))"

fun isFinite :: "jsnum \<Rightarrow> bool" where
  "isFinite (Fin x) = True"
| "isFinite NZero = True"
| "isFinite x = False"

fun jneg :: "jsnum \<Rightarrow> jsnum" where
  "jneg NaN = NaN"
| "jneg PInf = NInf"
| "jneg NInf = PInf"
| "jneg NZero = Fin 0"
| "jneg (Fin x) = (if x = 0 then NZero else Fin (- x))"

fun jadd :: "jsnum \<Rightarrow> jsnum \<Rightarrow> jsnum" where
  "jadd (Fin x) (Fin y) = round_double (x + y)"
| "jadd NaN y = NaN"
| "jadd x NaN = NaN"
| "jadd PInf NInf = NaN"
| "jadd NInf PInf = NaN"
| "jadd PInf y = PInf"
| "jadd x PInf = PInf"
| "jadd NInf y = NInf"
| "jadd x NInf = NInf"
| "jadd NZero NZero = NZero"
| "jadd NZero (Fin y) = Fin y"
| "jadd (Fin x) NZero = Fin x"

definition jsub :: "jsnum \<Rightarrow> jsnum \<Rightarrow> jsnum" where
  "jsub x y = jadd x (jneg y)"

fun jmul :: "jsnum \<Rightarrow> jsnum \<Rightarrow> jsnum" where
  "jmul (Fin x) (Fin y) =
     (if x = 0 \<or> y = 0 then (if x < 0 \<or> y < 0 then NZero else Fin 0)
      else round_double (x * y))"
| "jmul NaN y = NaN"
| "jmul x NaN = NaN"
| "jmul NZero (Fin y) = (if y < 0 then Fin 0 else NZero)"
| "jmul (Fin x) NZero = (if x < 0 then Fin 0 else NZero)"
| "jmul NZero NZero = Fin 0"
| "jmul NZero y = NaN"
| "jmul x NZero = NaN"
| "jmul PInf (Fin y) = (if y = 0 then NaN else if 0 < y then PInf else NInf)"
| "jmul NInf (Fin y) = (if y = 0 then NaN else if 0 < y then NInf else PInf)"
| "jmul (Fin x) PInf = (if x = 0 then NaN else if 0 < x then PInf else NInf)"
| "jmul (Fin x) NInf = (if x = 0 then NaN else if 0 < x then NInf else PInf)"
| "jmul PInf PInf = PInf"
| "jmul PInf NInf = NInf"
| "jmul NInf PInf = NInf"
| "jmul NInf NInf = PInf"

fun jdiv :: "jsnum \<Rightarrow> jsnum \<Rightarrow> jsnum" where
  "jdiv (Fin x) (Fin y) =
     (if y = 0 then (if x = 0 then NaN else if 0 < x then PInf else NInf)
      else if x = 0 then (if y < 0 then NZero else Fin 0)
      else round_double (x / y))"
| "jdiv NaN y = NaN"
| "jdiv x NaN = NaN"
| "jdiv (Fin x) NZero = (if x = 0 then NaN else if 0 < x then NInf else PInf)"
| "jdiv NZero (Fin y) = (if y = 0 then NaN else if 0 < y then NZero else Fin 0)"
| "jdiv NZero NZero = NaN"
| "jdiv (Fin x) PInf = (if x < 0 then NZero else Fin 0)"
| "jdiv (Fin x) NInf = (if x < 0 then Fin 0 else NZero)"
| "jdiv NZero PInf = NZero"
| "jdiv NZero NInf = Fin 0"
| "jdiv PInf (Fin y) = (if y < 0 then NInf else PInf)"
| "jdiv NInf (Fin y) = (if y < 0 then PInf else NInf)"
| "jdiv PInf NZero = NInf"
| "jdiv NInf NZero = PInf"
| "jdiv PInf y = NaN"
| "jdiv NInf y = NaN"

text \<open>Comparisons: false with a \<open>NaN\<close> operand, the two zeros equal.\<close>

fun jlt :: "jsnum \<Rightarrow> jsnum \<Rightarrow> bool" where
  "jlt (Fin x) (Fin y) = (x < y)"
| "jlt NZero (Fin y) = (0 < y)"
| "jlt (Fin x) NZero = (x < 0)"
| "jlt NZero NZero = False"
| "jlt NaN y = False"
| "jlt x NaN = False"
| "jlt PInf y = False"
| "jlt x NInf = False"
| "jlt NInf y = True"
| "jlt x PInf = True"

fun jle :: "jsnum \<Rightarrow> jsnum \<Rightarrow> bool" where
  "jle (Fin x) (Fin y) = (x \<le> y)"
| "jle NZero (Fin y) = (0 \<le> y)"
| "jle (Fin x) NZero = (x \<le> 0)"
| "jle NZero NZero = True"
| "jle NaN y = False"
| "jle x NaN = False"
| "jle NInf y = True"
| "jle x PInf = True"
| "jle PInf y = False"
| "jle x NInf = False"

definition jgt :: "jsnum \<Rightarrow> jsnum \<Rightarrow> bool" where
  "jgt x y = jlt y x"

definition jge :: "jsnum \<Rightarrow> jsnum \<Rightarrow> bool" where
  "jge x y = jle y x"

text \<open>
  \<open>Math.max\<close> and \<open>Math.min\<close> (the positive zero is the larger zero), \<open>Math.abs\<close>,
  \<open>Math.round\<close> (the tie goes up; a result zero keeps the sign of a negative argument),
  \<open>Math.sqrt\<close>. \<open>Math.exp\<close> is left to the implementation by the language; it is modelled as
  the exponential rounded to the nearest double.
\<close>

definition Math_max :: "jsnum \<Rightarrow> jsnum \<Rightarrow> jsnum" where
  "Math_max x y =
     (if x = NaN \<or> y = NaN then NaN
      else if jlt x y then y else if jlt y x then x
      else if x = NZero then y else x)"

definition Math_min :: "jsnum \<Rightarrow> jsnum \<Rightarrow> jsnum" where
  "Math_min x y =
     (if x = NaN \<or> y = NaN then NaN
      else if jlt y x then y else if jlt x y then x
      else if y = NZero then y else x)"

fun Math_abs :: "jsnum \<Rightarrow> jsnum" where
  "Math_abs NaN = NaN"
| "Math_abs PInf = PInf"
| "Math_abs NInf = PInf"
| "Math_abs NZero = Fin 0"
| "Math_abs (Fin x) = Fin \<bar>x\<bar>"

fun Math_round :: "jsnum \<Rightarrow> jsnum" where
  "Math_round (Fin x) =
     (if \<lfloor>x + 1 / 2\<rfloor> = 0 \<and> x < 0 then NZero else Fin (of_int \<lfloor>x + 1 / 2\<rfloor>))"
| "Math_round x = x"

fun Math_sqrt :: "jsnum \<Rightarrow> jsnum" where
  "Math_sqrt (Fin x) = (if x < 0 then NaN else round_double (sqrt x))"
| "Math_sqrt NZero = NZero"
| "Math_sqrt PInf = PInf"
| "Math_sqrt x = NaN"

fun Math_exp :: "jsnum \<Rightarrow> jsnum" where
  "Math_exp (Fin x) = round_double (exp x)"
| "Math_exp NZero = Fin 1"
| "Math_exp PInf = PInf"
| "Math_exp NInf = Fin 0"
| "Math_exp NaN = NaN"

text \<open>
  \<open>Number(x.toFixed(d))\<close>: \<open>toFixed\<close> prints the decimal with \<open>d\<close> fraction digits nearest to
  the magnitude of \<open>x\<close>, the larger one of two equally near, with the sign of a negative
  \<open>x\<close> in front, and \<open>Number\<close> reads the decimal back as the nearest double. (From \<open>10^21\<close>
  on \<open>toFixed\<close> prints the number itself; a double that large is whole and equal to its
  rounding.)
\<close>

fun toFixed :: "nat \<Rightarrow> jsnum \<Rightarrow> jsnum" where
  "toFixed d (Fin x) =
     (if x < 0 then jneg (round_double (of_int \<lfloor>\<bar>x\<bar> * 10 ^ d + 1 / 2\<rfloor> / 10 ^ d))
      else round_double (of_int \<lfloor>\<bar>x\<bar> * 10 ^ d + 1 / 2\<rfloor> / 10 ^ d))"
| "toFixed d NZero = Fin 0"
| "toFixed d x = x"

text \<open>Truthiness of a number (the zeros and \<open>NaN\<close> are falsy) and \<open>a || b\<close> on numbers.\<close>

definition truthy :: "jsnum \<Rightarrow> bool" where
  "truthy x = (x \<noteq> NaN \<and> x \<noteq> Fin 0 \<and> x \<noteq> NZero)"

definition num_or :: "jsnum \<Rightarrow> jsnum \<Rightarrow> jsnum" where
  "num_or x y = (if truthy x then x else y)"

text \<open>
  Reading index \<open>j\<close> of an array of numbers in an arithmetic expression: past the end the
  read is \<open>undefined\<close>, which arithmetic converts to \<open>NaN\<close>.
\<close>

definition num_at :: "jsnum list \<Rightarrow> nat \<Rightarrow> jsnum" where
  "num_at xs j = (if j < length xs then xs ! j else NaN)"

section \<open>Strings\<close>

text \<open>
  Strings are lists of \<open>char\<close>, so the model covers the strings whose code units are below
  256. \<open>trim\<close> removes the white space and line terminators of that range, \<open>toLowerCase\<close>
  maps its upper-case letters.
\<close>

definition isSpace :: "char \<Rightarrow> bool" where
  "isSpace c = (of_char c \<in> {9, 10, 11, 12, 13, 32, 160 :: nat})"

definition trim :: "string \<Rightarrow> string" where
  "trim s = rev (dropWhile isSpace (rev (dropWhile isSpace s)))"

definition lower_char :: "char \<Rightarrow> char" where
  "lower_char c =
     (let n = (of_char c :: nat)
      in if (65 \<le> n \<and> n \<le> 90) \<or> (192 \<le> n \<and> n \<le> 222 \<and> n \<noteq> 215)
         then char_of (n + 32) else c)"

definition toLowerCase :: "string \<Rightarrow> string" where
  "toLowerCase s = map lower_char s"

text \<open>\<open>`${n}`\<close> for a non-negative integer \<open>n\<close>: its decimal digits.\<close>

fun show_nat :: "nat \<Rightarrow> string" where
  "show_nat n =
     (if n < 10 then [char_of (48 + n)]
      else show_nat (n div 10) @ [char_of (48 + n mod 10)])"

declare show_nat.simps [simp del]

section \<open>Feature extraction\<close>

text \<open>
  A raw record maps a column name to its text. \<open>String(v)\<close> and \<open>v || d\<close> are applied to a
  field that may be missing (\<open>undefined\<close>).
\<close>

type_synonym raw_record = "string \<rightharpoonup> string"

definition String_of :: "string option \<Rightarrow> string" where
  "String_of v = (case v of None \<Rightarrow> ''undefined'' | Some s \<Rightarrow> s)"

definition str_or :: "string option \<Rightarrow> string \<Rightarrow> string" where
  "str_or v d = (case v of None \<Rightarrow> d | Some s \<Rightarrow> if s = [] then d else s)"

record feature_def =
  key :: string
  name :: string
  type :: string

definition featureDefs :: "feature_def list" where
  "featureDefs =
    [\<lparr>key = ''account length'', name = ''Account Tenure'', type = ''num''\<rparr>,
     \<lparr>key = ''international plan'', name = ''International Plan'', type = ''boolYes''\<rparr>,
     \<lparr>key = ''voice mail plan'', name = ''Voicemail Plan'', type = ''boolYes''\<rparr>,
     \<lparr>key = ''number vmail messages'', name = ''Voicemail Usage'', type = ''num''\<rparr>,
     \<lparr>key = ''total day minutes'', name = ''Day Usage'', type = ''num''\<rparr>,
     \<lparr>key = ''total eve minutes'', name = ''Evening Usage'', type = ''num''\<rparr>,
     \<lparr>key = ''total night minutes'', name = ''Night Usage'', type = ''num''\<rparr>,
     \<lparr>key = ''total intl minutes'', name = ''International Usage'', type = ''num''\<rparr>,
     \<lparr>key = ''customer service calls'', name = ''Service Calls'', type = ''num''\<rparr>]"

definition platforms :: "string list" where
  "platforms = [''Netflix'', ''Prime Video'', ''Disney+ Hotstar'', ''Crunchyroll'', ''Aha'']"

text \<open>
  \<open>Number(value)\<close> on a string is the runtime's conversion and is a parameter \<open>Number\<close> of
  the model; on a missing field it is \<open>NaN\<close>.
\<close>

definition toNum :: "(string \<Rightarrow> jsnum) \<Rightarrow> string option \<Rightarrow> jsnum" where
  "toNum Number v =
     (let n = (case v of None \<Rightarrow> NaN | Some s \<Rightarrow> Number s)
      in if isFinite n then n else Fin 0)"

definition toBoolYes :: "string option \<Rightarrow> jsnum" where
  "toBoolYes v = (if toLowerCase (trim (str_or v [])) = ''yes'' then Fin 1 else Fin 0)"

definition hashText :: "string \<Rightarrow> nat" where
  "hashText text = foldl (\<lambda>hash c. (hash * 31 + of_char c) mod 2147483647) 0 text"

definition sigmoid :: "jsnum \<Rightarrow> jsnum" where
  "sigmoid x = jdiv (Fin 1) (jadd (Fin 1) (Math_exp (jneg x)))"

definition clamp01 :: "jsnum \<Rightarrow> jsnum" where
  "clamp01 v = Math_max (Fin 0) (Math_min (Fin 1) v)"

definition featureValue :: "(string \<Rightarrow> jsnum) \<Rightarrow> raw_record \<Rightarrow> feature_def \<Rightarrow> jsnum" where
  "featureValue Number row def =
     (if type def = ''num'' then toNum Number (row (key def))
      else if type def = ''boolYes'' then toBoolYes (row (key def))
      else Fin 0)"

definition featureVector :: "(string \<Rightarrow> jsnum) \<Rightarrow> raw_record \<Rightarrow> jsnum list" where
  "featureVector Number row = map (featureValue Number row) featureDefs"

record model_row =
  row_id :: string
  state :: string
  platform :: string
  tier :: string
  actualChurn :: nat
  minutes :: jsnum
  serviceCalls :: jsnum
  interactionPulse :: jsnum
  raw :: raw_record

definition toModelRow :: "(string \<Rightarrow> jsnum) \<Rightarrow> raw_record \<Rightarrow> nat \<Rightarrow> model_row" where
  "toModelRow Number row idx =
     (let stateCode = str_or (row ''state'') ''NA'';
          areaCode = str_or (row ''area code'') ''000'';
          platform = platforms !
            (hashText (stateCode @ ''-'' @ areaCode @ ''-'' @ show_nat idx) mod length platforms);
          tier =
            (if jgt (jadd (toNum Number (row ''total day minutes''))
                          (toNum Number (row ''total eve minutes''))) (Fin 420)
             then ''Premium''
             else if jgt (toNum Number (row ''total day minutes'')) (Fin 210)
             then ''Standard''
             else ''Mobile'')
      in \<lparr>row_id = str_or (row ''phone number'') (stateCode @ ''-'' @ show_nat idx),
          state = stateCode,
          platform = platform,
          tier = tier,
          actualChurn = (if toLowerCase (trim (String_of (row ''churn''))) = ''true'' then 1 else 0),
          minutes =
            jadd (jadd (jadd (toNum Number (row ''total day minutes''))
                             (toNum Number (row ''total eve minutes'')))
                       (toNum Number (row ''total night minutes'')))
                 (toNum Number (row ''total intl minutes'')),
          serviceCalls = toNum Number (row ''customer service calls''),
          interactionPulse =
            Math_round (jdiv (jadd (jadd (toNum Number (row ''total day calls''))
                                        (toNum Number (row ''total eve calls'')))
                                  (toNum Number (row ''total night calls'')))
                             (Fin 3)),
          raw = row\<rparr>)"

section \<open>Model trainer\<close>

record trained_model =
  weights :: "jsnum list"
  bias :: jsnum
  means :: "jsnum list"
  stds :: "jsnum list"

text \<open>Mean and standard deviation of column \<open>j\<close> of the feature matrix (the first loop).\<close>

definition column_mean :: "jsnum list list \<Rightarrow> nat \<Rightarrow> jsnum" where
  "column_mean X j =
     jdiv (foldl (\<lambda>acc row. jadd acc (num_at row j)) (Fin 0) X) (Fin (real (length X)))"

definition column_std :: "jsnum list list \<Rightarrow> nat \<Rightarrow> jsnum" where
  "column_std X j =
     (let variance =
            jdiv (foldl (\<lambda>acc row.
                     jadd acc (jmul (jsub (num_at row j) (column_mean X j))
                                    (jsub (num_at row j) (column_mean X j)))) (Fin 0) X)
                 (Math_max (Fin 1) (Fin (real (length X) - 1)))
      in num_or (Math_sqrt variance) (Fin 1))"

text \<open>\<open>row.map((value, j) => (value - means[j]) / stds[j])\<close>, used by trainer and scorer.\<close>

definition standardize :: "jsnum list \<Rightarrow> jsnum list \<Rightarrow> jsnum list \<Rightarrow> jsnum list" where
  "standardize mu sd row =
     map (\<lambda>(v, j). jdiv (jsub v (num_at mu j)) (num_at sd j)) (zip row [0..<length row])"

text \<open>\<open>let z = b; for (j < m) z += w[j] * zi[j]\<close>.\<close>

definition weighted_sum :: "jsnum \<Rightarrow> jsnum list \<Rightarrow> jsnum list \<Rightarrow> nat \<Rightarrow> jsnum" where
  "weighted_sum b w zi m = foldl (\<lambda>z j. jadd z (jmul (num_at w j) (num_at zi j))) b [0..<m]"

text \<open>The body of the loop over the rows: one row adds to the gradient sums \<open>(dw, db)\<close>.\<close>

definition grad_row ::
  "nat \<Rightarrow> jsnum list \<Rightarrow> jsnum \<Rightarrow> jsnum list \<times> jsnum \<Rightarrow> jsnum list \<times> nat \<Rightarrow> jsnum list \<times> jsnum"
where
  "grad_row m w b acc zy =
     (let diff = jsub (sigmoid (weighted_sum b w (fst zy) m)) (Fin (real (snd zy)))
      in (map (\<lambda>j. jadd (num_at (fst acc) j) (jmul diff (num_at (fst zy) j))) [0..<m],
          jadd (snd acc) diff))"

text \<open>One epoch: sum the gradient over all rows, then update every weight and the bias.\<close>

definition epoch_step ::
  "nat \<Rightarrow> jsnum \<Rightarrow> jsnum \<Rightarrow> jsnum list list \<Rightarrow> nat list \<Rightarrow> jsnum list \<times> jsnum
     \<Rightarrow> jsnum list \<times> jsnum"
where
  "epoch_step m lr l2 Z y wb =
     (let w = fst wb; b = snd wb; n = Fin (real (length Z));
          g = foldl (grad_row m w b) (replicate m (Fin 0), Fin 0) (zip Z y)
      in (map (\<lambda>j. jsub (num_at w j)
                     (jmul lr (jadd (jdiv (num_at (fst g) j) n) (jmul l2 (num_at w j))))) [0..<m],
          jsub b (jmul lr (jdiv (snd g) n))))"

definition trainLogisticRegression ::
  "(string \<Rightarrow> jsnum) \<Rightarrow> model_row list \<Rightarrow> nat \<Rightarrow> jsnum \<Rightarrow> jsnum \<Rightarrow> trained_model"
where
  "trainLogisticRegression Number rows epochs lr l2 =
     (let X = map (\<lambda>row. featureVector Number (raw row)) rows;
          y = map actualChurn rows;
          m = length featureDefs;
          mu = map (column_mean X) [0..<m];
          sd = map (column_std X) [0..<m];
          Z = map (standardize mu sd) X;
          wb = (epoch_step m lr l2 Z y ^^ epochs) (replicate m (Fin 0), Fin 0)
      in \<lparr>weights = fst wb, bias = snd wb, means = mu, stds = sd\<rparr>)"

section \<open>Scorer\<close>

text \<open>
  \<open>Array.prototype.sort\<close> with a comparator is stable: \<open>a\<close> stays before \<open>b\<close> unless the
  comparator's result for \<open>(a, b)\<close> is positive (a \<open>NaN\<close> result counts as \<open>0\<close>). It is
  modelled as a stable insertion sort, which is what every stable sort computes when the
  comparator is consistent.
\<close>

fun insert_by :: "('a \<Rightarrow> 'a \<Rightarrow> jsnum) \<Rightarrow> 'a \<Rightarrow> 'a list \<Rightarrow> 'a list" where
  "insert_by cmp x [] = [x]"
| "insert_by cmp x (y # ys) =
     (if jgt (cmp x y) (Fin 0) then y # insert_by cmp x ys else x # y # ys)"

definition Array_sort :: "('a \<Rightarrow> 'a \<Rightarrow> jsnum) \<Rightarrow> 'a list \<Rightarrow> 'a list" where
  "Array_sort cmp xs = foldr (insert_by cmp) xs []"

record contribution =
  c_feature :: string
  c_value :: jsnum
  effect :: jsnum

record risk_driver =
  feature :: string
  direction :: string
  impact :: jsnum

record scored_row = model_row +
  churnRisk :: jsnum
  bufferingRate :: jsnum
  satisfaction :: jsnum
  riskDrivers :: "risk_driver list"

definition contributions :: "trained_model \<Rightarrow> jsnum list \<Rightarrow> jsnum list \<Rightarrow> contribution list" where
  "contributions logisticModel rawX zX =
     map (\<lambda>(def, j). \<lparr>c_feature = name def, c_value = num_at rawX j,
                       effect = jmul (num_at (weights logisticModel) j) (num_at zX j)\<rparr>)
         (zip featureDefs [0..<length featureDefs])"

definition to_driver :: "contribution \<Rightarrow> risk_driver" where
  "to_driver driver =
     \<lparr>feature = c_feature driver,
      direction = (if jge (effect driver) (Fin 0) then ''up'' else ''down''),
      impact = toFixed 3 (Math_abs (effect driver))\<rparr>"

definition by_abs_effect :: "contribution \<Rightarrow> contribution \<Rightarrow> jsnum" where
  "by_abs_effect a b = jsub (Math_abs (effect b)) (Math_abs (effect a))"

definition scoreRow :: "(string \<Rightarrow> jsnum) \<Rightarrow> model_row \<Rightarrow> trained_model \<Rightarrow> scored_row" where
  "scoreRow Number row logisticModel =
     (let rawX = featureVector Number (raw row);
          zX = standardize (means logisticModel) (stds logisticModel) rawX;
          z = weighted_sum (bias logisticModel) (weights logisticModel) zX (length zX);
          risk = toFixed 2 (jmul (sigmoid z) (Fin 100))
      in model_row.extend row
           \<lparr>churnRisk = risk,
            bufferingRate = toFixed 2 (jmul (clamp01 (jdiv (serviceCalls row) (Fin 8))) (Fin 6)),
            satisfaction =
              Math_max (Fin 20)
                (Math_min (Fin 99) (Math_round (jsub (Fin 100) (jmul risk (round_double (7 / 10)))))),
            riskDrivers =
              map to_driver (take 5 (Array_sort by_abs_effect
                                       (contributions logisticModel rawX zX)))\<rparr>)"

section \<open>Evaluator\<close>

record model_stats =
  threshold :: jsnum
  accuracy :: jsnum
  precision :: jsnum
  recall :: jsnum
  f1 :: jsnum

text \<open>The confusion matrix \<open>(tp, fp, tn, fn)\<close> after one more row.\<close>

definition count_row :: "nat \<times> nat \<times> nat \<times> nat \<Rightarrow> scored_row \<Rightarrow> nat \<times> nat \<times> nat \<times> nat" where
  "count_row c row =
     (case c of (tp, fp, tn, fn) \<Rightarrow>
        let pred = (if jge (churnRisk row) (Fin 50) then 1 else 0 :: nat)
        in (if pred = 1 \<and> actualChurn row = 1 then tp + 1 else tp,
            if pred = 1 \<and> actualChurn row = 0 then fp + 1 else fp,
            if pred = 0 \<and> actualChurn row = 0 then tn + 1 else tn,
            if pred = 0 \<and> actualChurn row = 1 then fn + 1 else fn))"

definition evaluateModel :: "scored_row list \<Rightarrow> model_stats" where
  "evaluateModel rows =
     (case foldl count_row (0, 0, 0, 0) rows of (tp, fp, tn, fn) \<Rightarrow>
        let total = (if length rows = 0 then 1 else length rows);
            prec = (if tp + fp > 0 then jdiv (Fin (real tp)) (Fin (real (tp + fp))) else Fin 0);
            rec = (if tp + fn > 0 then jdiv (Fin (real tp)) (Fin (real (tp + fn))) else Fin 0);
            f = (if jgt (jadd prec rec) (Fin 0)
                 then jdiv (jmul (jmul (Fin 2) prec) rec) (jadd prec rec) else Fin 0)
        in \<lparr>threshold = Fin 50,
            accuracy = toFixed 2 (jmul (jdiv (Fin (real (tp + tn))) (Fin (real total))) (Fin 100)),
            precision = toFixed 2 (jmul prec (Fin 100)),
            recall = toFixed 2 (jmul rec (Fin 100)),
            f1 = toFixed 2 (jmul f (Fin 100))\<rparr>)"

section \<open>Stream aggregator\<close>

record platform_metric =
  pm_name :: string
  activeUsers :: nat
  avgRisk :: jsnum
  serviceLoad :: jsnum
  avgMinutes :: jsnum
  pm_satisfaction :: jsnum

definition summarizePlatform :: "scored_row list \<Rightarrow> string \<Rightarrow> platform_metric" where
  "summarizePlatform rows p =
     (let group = filter (\<lambda>row. platform row = p) rows;
          avg = (\<lambda>calc. toFixed 2 (jdiv calc (Fin (real (length group)))))
      in if length group = 0
         then \<lparr>pm_name = p, activeUsers = 0, avgRisk = Fin 0, serviceLoad = Fin 0,
               avgMinutes = Fin 0, pm_satisfaction = Fin 0\<rparr>
         else \<lparr>pm_name = p, activeUsers = length group,
               avgRisk = avg (foldl (\<lambda>acc cur. jadd acc (churnRisk cur)) (Fin 0) group),
               serviceLoad = avg (foldl (\<lambda>acc cur. jadd acc (serviceCalls cur)) (Fin 0) group),
               avgMinutes = avg (foldl (\<lambda>acc cur. jadd acc (minutes cur)) (Fin 0) group),
               pm_satisfaction =
                 avg (foldl (\<lambda>acc cur. jadd acc (satisfaction cur)) (Fin 0) group)\<rparr>)"

record bucket =
  b_name :: string
  b_min :: jsnum
  b_max :: jsnum
  color :: string

record risk_bucket = bucket +
  users :: nat
  share :: jsnum

definition buckets :: "bucket list" where
  "buckets =
     [\<lparr>b_name = ''Low'', b_min = Fin 0, b_max = Fin 34, color = ''#45f4b0''\<rparr>,
      \<lparr>b_name = ''Medium'', b_min = Fin 34, b_max = Fin 67, color = ''#73beff''\<rparr>,
      \<lparr>b_name = ''High'', b_min = Fin 67, b_max = Fin 101, color = ''#ff6ea6''\<rparr>]"

definition getRiskDistribution :: "scored_row list \<Rightarrow> risk_bucket list" where
  "getRiskDistribution rows =
     (let total = (if length rows = 0 then 1 else length rows)
      in map (\<lambda>b.
           let n = length (filter (\<lambda>row. jge (churnRisk row) (b_min b) \<and>
                                           jlt (churnRisk row) (b_max b)) rows)
           in bucket.extend b
                \<lparr>users = n,
                 share = toFixed 2 (jmul (jdiv (Fin (real n)) (Fin (real total))) (Fin 100))\<rparr>)
         buckets)"

record alert =
  alert_id :: string
  severity :: string
  title :: string
  message :: string

text \<open>
  \<open>buildAlerts\<close> prints numbers into its messages and reads the clock for every alert it
  makes. Both belong to the runtime: \<open>show_num\<close> is the text of a number, \<open>Date_now k\<close>
  the clock at the \<open>k\<close>-th alert.
\<close>

definition critical_alert :: "(jsnum \<Rightarrow> string) \<Rightarrow> nat \<Rightarrow> platform_metric \<Rightarrow> alert" where
  "critical_alert show_num t p =
     \<lparr>alert_id = ''risk-'' @ pm_name p @ ''-'' @ show_nat t,
      severity = ''critical'',
      title = pm_name p @ '' risk escalation'',
      message = ''Average risk at '' @ show_num (avgRisk p) @ ''% with service load ''
                @ show_num (serviceLoad p) @ ''.''\<rparr>"

definition warning_alert :: "nat \<Rightarrow> nat \<Rightarrow> alert" where
  "warning_alert t highRiskCount =
     \<lparr>alert_id = ''cohort-'' @ show_nat t,
      severity = ''warning'',
      title = ''High-risk cohort concentration'',
      message = show_nat highRiskCount
                @ '' customers in high-risk zone in active stream window.''\<rparr>"

definition buildAlerts ::
  "(jsnum \<Rightarrow> string) \<Rightarrow> (nat \<Rightarrow> nat) \<Rightarrow> platform_metric list \<Rightarrow> nat \<Rightarrow> alert list"
where
  "buildAlerts show_num Date_now platformMetrics highRiskCount =
     (let alerts = foldl (\<lambda>alerts p.
                      if jgt (avgRisk p) (Fin 62)
                      then alerts @ [critical_alert show_num (Date_now (length alerts)) p]
                      else alerts) [] platformMetrics;
          alerts2 = (if highRiskCount > 40
                     then alerts @ [warning_alert (Date_now (length alerts)) highRiskCount]
                     else alerts)
      in take 8 alerts2)"

text \<open>
  \<open>nextBatch\<close> reads \<open>mappedRows[cursor]\<close> and advances the cursor, \<open>size\<close> times. A read past
  the end of \<open>mappedRows\<close> is \<open>undefined\<close>, here \<open>None\<close>.
\<close>

fun draw :: "'a list \<Rightarrow> nat \<Rightarrow> nat \<Rightarrow> 'a option list \<Rightarrow> 'a option list \<times> nat" where
  "draw rows 0 cursor out = (out, cursor)"
| "draw rows (Suc k) cursor out =
     draw rows k ((cursor + 1) mod length rows)
       (out @ [if cursor < length rows then Some (rows ! cursor) else None])"

definition nextBatch :: "'a list \<Rightarrow> nat \<Rightarrow> nat \<Rightarrow> 'a option list \<times> nat" where
  "nextBatch rows cursor n = (if length rows = 0 then ([], cursor) else draw rows n cursor [])"

record kpi_values =
  activeSessions :: nat
  avgChurnRisk :: jsnum
  predictedChurners :: nat
  totalMinutes :: jsnum
  avgServiceCalls :: jsnum

record top_customer =
  tc_id :: string
  tc_platform :: string
  tc_state :: string
  tc_tier :: string
  tc_risk :: jsnum
  tc_serviceCalls :: jsnum
  tc_interactionPulse :: jsnum
  tc_riskDrivers :: "risk_driver list"

record stream_customer =
  sc_id :: string
  sc_platform :: string
  sc_state :: string
  sc_tier :: string
  sc_risk :: jsnum
  sc_interactionPulse :: jsnum
  sc_serviceCalls :: jsnum
  sc_minutes :: jsnum
  sc_riskDrivers :: "risk_driver list"

record pulse =
  lp_id :: string
  lp_platform :: string
  lp_state :: string
  lp_tier :: string
  lp_interactionPulse :: jsnum
  lp_risk :: jsnum
  lp_bufferingRate :: jsnum
  lp_riskDrivers :: "risk_driver list"

record trend_point =
  time :: string
  tp_risk :: jsnum
  churners :: nat
  active :: nat

record dataset_info =
  ds_path :: string
  ds_rows :: nat

text \<open>The published object \<open>state\<close>.\<close>

record analytics_state =
  kpis :: kpi_values
  platformMetrics :: "platform_metric list"
  riskDistribution :: "risk_bucket list"
  trend :: "trend_point list"
  liveFeed :: "pulse list"
  topRiskCustomers :: "top_customer list"
  alerts :: "alert list"
  modelStats :: "model_stats option"
  states :: "string list"
  st_platforms :: "string list"
  streamCustomers :: "stream_customer list"
  updateAt :: string
  datasetInfo :: dataset_info

text \<open>
  The module's variables: \<open>snapshot\<close> is the variable \<open>state\<close>, the others keep their
  names.
\<close>

record server_state =
  snapshot :: analytics_state
  mappedRows :: "scored_row list"
  model :: "trained_model option"
  currentDatasetPath :: string
  cursor :: nat
  streamWindow :: "scored_row list"
  trendWindow :: "trend_point list"

text \<open>What one tick reads from the clock: \<open>new Date()\<close> and the \<open>Date.now()\<close> calls.\<close>

record tick_env =
  now_ms :: nat
  now_time :: string
  now_iso :: string
  clock :: "nat \<Rightarrow> nat"

datatype error = NotFound | ReadError | TypeError

definition to_top_customer :: "scored_row \<Rightarrow> top_customer" where
  "to_top_customer row =
     \<lparr>tc_id = row_id row, tc_platform = platform row, tc_state = state row, tc_tier = tier row,
      tc_risk = churnRisk row, tc_serviceCalls = serviceCalls row,
      tc_interactionPulse = interactionPulse row, tc_riskDrivers = riskDrivers row\<rparr>"

definition to_stream_customer :: "scored_row \<Rightarrow> stream_customer" where
  "to_stream_customer row =
     \<lparr>sc_id = row_id row, sc_platform = platform row, sc_state = state row, sc_tier = tier row,
      sc_risk = churnRisk row, sc_interactionPulse = interactionPulse row,
      sc_serviceCalls = serviceCalls row, sc_minutes = minutes row,
      sc_riskDrivers = riskDrivers row\<rparr>"

definition to_pulse :: "nat \<Rightarrow> nat \<Rightarrow> scored_row \<Rightarrow> pulse" where
  "to_pulse ms c row =
     \<lparr>lp_id = show_nat ms @ ''-'' @ show_nat c, lp_platform = platform row,
      lp_state = state row, lp_tier = tier row, lp_interactionPulse = interactionPulse row,
      lp_risk = churnRisk row, lp_bufferingRate = bufferingRate row,
      lp_riskDrivers = riskDrivers row\<rparr>"

text \<open>\<open>xs.slice(-k)\<close>: the last \<open>k\<close> elements.\<close>

definition slice_last :: "nat \<Rightarrow> 'a list \<Rightarrow> 'a list" where
  "slice_last k xs = drop (length xs - k) xs"

text \<open>
  One tick. A batch that holds an \<open>undefined\<close> row (a cursor past the end of a non-empty
  \<open>mappedRows\<close>) makes the first aggregate over the window raise a \<open>TypeError\<close>; the
  model returns the error and not the partly updated variables.
\<close>

definition refreshState :: "(jsnum \<Rightarrow> string) \<Rightarrow> tick_env \<Rightarrow> server_state \<Rightarrow> error + server_state" where
  "refreshState show_num env s =
     (case nextBatch (mappedRows s) (cursor s) 45 of (drawn, cursor2) \<Rightarrow>
        if None \<in> set drawn then Inl TypeError
        else
          let batch = map the drawn;
              window = slice_last 620 (streamWindow s @ batch);
              activeSessions = length window;
              avgChurnRisk =
                (if activeSessions > 0
                 then toFixed 2 (jdiv (foldl (\<lambda>acc cur. jadd acc (churnRisk cur)) (Fin 0) window)
                                      (Fin (real activeSessions)))
                 else Fin 0);
              limit = (case modelStats (snapshot s) of None \<Rightarrow> Fin 50 | Some ms \<Rightarrow> threshold ms);
              predictedChurners = length (filter (\<lambda>row. jge (churnRisk row) limit) window);
              totalMinutes = toFixed 2 (foldl (\<lambda>acc cur. jadd acc (minutes cur)) (Fin 0) window);
              avgServiceCalls =
                (if activeSessions > 0
                 then toFixed 2 (jdiv (foldl (\<lambda>acc cur. jadd acc (serviceCalls cur)) (Fin 0) window)
                                      (Fin (real activeSessions)))
                 else Fin 0);
              metrics = map (summarizePlatform window) platforms;
              distribution = getRiskDistribution window;
              top = map to_top_customer
                      (take 14 (Array_sort (\<lambda>a b. jsub (churnRisk b) (churnRisk a)) window));
              trendPoint = \<lparr>time = now_time env, tp_risk = avgChurnRisk,
                            churners = predictedChurners, active = activeSessions\<rparr>;
              trend2 = slice_last 24 (trendWindow s @ [trendPoint]);
              highRiskCount =
                (case find (\<lambda>d. b_name d = ''High'') distribution of
                   None \<Rightarrow> 0 | Some d \<Rightarrow> users d)
          in Inr (s\<lparr>cursor := cursor2,
                    streamWindow := window,
                    trendWindow := trend2,
                    snapshot := (snapshot s)
                      \<lparr>kpis := \<lparr>activeSessions = activeSessions, avgChurnRisk = avgChurnRisk,
                                 predictedChurners = predictedChurners,
                                 totalMinutes = totalMinutes,
                                 avgServiceCalls = avgServiceCalls\<rparr>,
                       platformMetrics := metrics,
                       riskDistribution := distribution,
                       trend := trend2,
                       liveFeed :=
                         (if length batch > 0
                          then take 30 (to_pulse (now_ms env) cursor2 (last batch)
                                        # liveFeed (snapshot s))
                          else liveFeed (snapshot s)),
                       topRiskCustomers := top,
                       streamCustomers := map to_stream_customer window,
                       alerts := buildAlerts show_num (clock env) metrics highRiskCount,
                       updateAt := now_iso env\<rparr>\<rparr>))"

text \<open>Ticks one after the other, each with its own clock readings.\<close>

fun ticks :: "(jsnum \<Rightarrow> string) \<Rightarrow> tick_env list \<Rightarrow> server_state \<Rightarrow> error + server_state" where
  "ticks show_num [] s = Inr s"
| "ticks show_num (env # envs) s =
     (case refreshState show_num env s of
        Inl e \<Rightarrow> Inl e
      | Inr s2 \<Rightarrow> ticks show_num envs s2)"

section \<open>Dataset loader and reload\<close>

fun parse_chars :: "string \<Rightarrow> string list \<Rightarrow> string \<Rightarrow> bool \<Rightarrow> string list" where
  "parse_chars [] out v inQuotes = out @ [trim v]"
| "parse_chars (c # cs) out v inQuotes =
     (if c = CHR 0x22 then
        (case cs of
           d # ds \<Rightarrow>
             if inQuotes \<and> d = CHR 0x22 then parse_chars ds out (v @ [CHR 0x22]) inQuotes
             else parse_chars cs out v (\<not> inQuotes)
         | [] \<Rightarrow> parse_chars cs out v (\<not> inQuotes))
      else if c = CHR '','' \<and> \<not> inQuotes then parse_chars cs (out @ [trim v]) [] inQuotes
      else parse_chars cs out (v @ [c]) inQuotes)"

definition parseCsvLine :: "string \<Rightarrow> string list" where
  "parseCsvLine line = parse_chars line [] [] False"

text \<open>\<open>raw.split(/\r?\n/)\<close>: the pieces between line feeds, a carriage return right before
  a line feed belonging to the separator.\<close>

fun split_lines :: "string \<Rightarrow> string \<Rightarrow> string list" where
  "split_lines [] cur = [cur]"
| "split_lines (c # cs) cur =
     (if c = CHR 0x0A then cur # split_lines cs []
      else (case cs of
              d # ds \<Rightarrow>
                if c = CHR 0x0D \<and> d = CHR 0x0A then cur # split_lines ds []
                else split_lines cs (cur @ [c])
            | [] \<Rightarrow> split_lines cs (cur @ [c])))"

text \<open>
  The file system is a map from an absolute path to what is there; \<open>path.resolve\<close> is a
  parameter.
\<close>

datatype fs_node = File string | Directory

definition make_record :: "string list \<Rightarrow> string list \<Rightarrow> raw_record" where
  "make_record headers parts =
     foldl (\<lambda>record hi.
              record(fst hi \<mapsto> (if snd hi < length parts then parts ! snd hi else [])))
           Map.empty (zip headers [0..<length headers])"

definition loadDataset ::
  "(string \<Rightarrow> string) \<Rightarrow> (string \<rightharpoonup> fs_node) \<Rightarrow> string \<Rightarrow> error + raw_record list"
where
  "loadDataset resolve fs csvPath =
     (case fs (resolve csvPath) of
        None \<Rightarrow> Inl NotFound
      | Some Directory \<Rightarrow> Inl ReadError
      | Some (File content) \<Rightarrow>
          (case filter (\<lambda>l. l \<noteq> []) (split_lines (trim content) []) of
             [] \<Rightarrow> Inl TypeError
           | l # ls \<Rightarrow> Inr (map (\<lambda>line. make_record (parseCsvLine l) (parseCsvLine line)) ls)))"

definition initData ::
  "(string \<Rightarrow> jsnum) \<Rightarrow> (string \<Rightarrow> string) \<Rightarrow> (string \<rightharpoonup> fs_node) \<Rightarrow> string \<Rightarrow> server_state
     \<Rightarrow> bool \<times> server_state"
where
  "initData Number resolve fs csvPath s =
     (case loadDataset resolve fs csvPath of
        Inl err \<Rightarrow> (False, s)
      | Inr rawRows \<Rightarrow>
          let modelingRows = map (\<lambda>(row, idx). toModelRow Number row idx)
                                 (zip rawRows [0..<length rawRows]);
              trained = trainLogisticRegression Number modelingRows 650
                          (round_double (7 / 100)) (round_double (7 / 10000));
              scored = map (\<lambda>row. scoreRow Number row trained) modelingRows;
              allStates = sort (remdups (map state scored))
          in (True,
              s\<lparr>model := Some trained,
                mappedRows := scored,
                currentDatasetPath := csvPath,
                cursor := 0,
                streamWindow := [],
                trendWindow := [],
                snapshot := (snapshot s)
                  \<lparr>modelStats := Some (evaluateModel scored),
                   states := allStates,
                   datasetInfo := \<lparr>ds_path = csvPath, ds_rows = length scored\<rparr>,
                   liveFeed := [],
                   trend := []\<rparr>\<rparr>))"

text \<open>The module's variables as the source initialises them.\<close>

definition initial_state :: "string \<Rightarrow> string \<Rightarrow> server_state" where
  "initial_state datasetPath started =
     \<lparr>snapshot =
        \<lparr>kpis = \<lparr>activeSessions = 0, avgChurnRisk = Fin 0, predictedChurners = 0,
                  totalMinutes = Fin 0, avgServiceCalls = Fin 0\<rparr>,
         platformMetrics = [], riskDistribution = [], trend = [], liveFeed = [],
         topRiskCustomers = [], alerts = [], modelStats = None, states = [],
         st_platforms = platforms, streamCustomers = [], updateAt = started,
         datasetInfo = \<lparr>ds_path = datasetPath, ds_rows = 0\<rparr>\<rparr>,
      mappedRows = [], model = None, currentDatasetPath = datasetPath, cursor = 0,
      streamWindow = [], trendWindow = []\<rparr>"

section \<open>Notions of the specification\<close>

text \<open>
  A trained model as the data model describes it: weight, mean and deviation vectors as
  long as the feature list, every parameter (the bias is one of the weights) a finite
  number, no deviation zero.
\<close>

definition finite_model :: "trained_model \<Rightarrow> bool" where
  "finite_model m =
     (length (weights m) = length featureDefs \<and> list_all isFinite (weights m) \<and>
      isFinite (bias m) \<and>
      length (means m) = length featureDefs \<and> list_all isFinite (means m) \<and>
      length (stds m) = length featureDefs \<and>
      list_all (\<lambda>x. isFinite x \<and> x \<noteq> Fin 0 \<and> x \<noteq> NZero) (stds m))"

definition clamp :: "real \<Rightarrow> real \<Rightarrow> real \<Rightarrow> real" where
  "clamp x lo hi = max lo (min hi x)"

text \<open>The linear score \<open>z\<close> that \<open>scoreRow\<close> computes for a row.\<close>

definition row_score :: "(string \<Rightarrow> jsnum) \<Rightarrow> model_row \<Rightarrow> trained_model \<Rightarrow> jsnum" where
  "row_score Number row m =
     weighted_sum (bias m) (weights m)
       (standardize (means m) (stds m) (featureVector Number (raw row)))
       (length featureDefs)"

text \<open>
  The risk drivers in the specification's words. The contribution of feature \<open>j\<close> is
  \<open>weight_j * standardizedValue_j\<close>, in the arithmetic of the numbers. The features are
  ranked by descending absolute contribution (an infinite one before every finite one),
  equal ones by ascending position in the feature list, and the first five are reported:
  direction \<open>up\<close> iff the contribution is at least 0, impact the absolute contribution
  rounded to three decimals.
\<close>

definition spec_effects :: "(string \<Rightarrow> jsnum) \<Rightarrow> model_row \<Rightarrow> trained_model \<Rightarrow> jsnum list" where
  "spec_effects Number row m =
     map (\<lambda>j. jmul (num_at (weights m) j)
                 (jdiv (jsub (num_at (featureVector Number (raw row)) j) (num_at (means m) j))
                       (num_at (stds m) j)))
         [0..<length featureDefs]"

definition rank_key :: "jsnum \<Rightarrow> nat \<times> real" where
  "rank_key e =
     (case e of PInf \<Rightarrow> (0, 0) | NInf \<Rightarrow> (0, 0) | Fin x \<Rightarrow> (1, - \<bar>x\<bar>)
      | NZero \<Rightarrow> (1, 0) | NaN \<Rightarrow> (2, 0))"

definition spec_direction :: "jsnum \<Rightarrow> string" where
  "spec_direction e =
     (case e of PInf \<Rightarrow> ''up'' | NInf \<Rightarrow> ''down'' | NZero \<Rightarrow> ''up''
      | Fin x \<Rightarrow> if 0 \<le> x then ''up'' else ''down'' | NaN \<Rightarrow> ''down'')"

definition spec_impact :: "jsnum \<Rightarrow> jsnum" where
  "spec_impact e =
     (case e of PInf \<Rightarrow> PInf | NInf \<Rightarrow> PInf | NZero \<Rightarrow> Fin 0
      | Fin x \<Rightarrow> round_double (of_int \<lfloor>\<bar>x\<bar> * 1000 + 1 / 2\<rfloor> / 1000) | NaN \<Rightarrow> NaN)"

definition spec_riskDrivers ::
  "(string \<Rightarrow> jsnum) \<Rightarrow> model_row \<Rightarrow> trained_model \<Rightarrow> risk_driver list"
where
  "spec_riskDrivers Number row m =
     (let es = spec_effects Number row m;
          ranked = sort_key (\<lambda>j. (rank_key (es ! j), j)) [0..<length featureDefs]
      in map (\<lambda>j. \<lparr>feature = name (featureDefs ! j),
                    direction = spec_direction (es ! j),
                    impact = spec_impact (es ! j)\<rparr>)
             (take 5 ranked))"

text \<open>
  The label in the specification's words: the \<open>churn\<close> field says true when, with white
  space taken off both ends, it is the word \<open>true\<close> in any mix of upper and lower case.
\<close>

definition spec_whitespace :: "char set" where
  "spec_whitespace = {CHR 0x09, CHR 0x0A, CHR 0x0B, CHR 0x0C, CHR 0x0D, CHR 0x20, CHR 0xA0}"

definition spells_true :: "string \<Rightarrow> bool" where
  "spells_true s =
     (case s of
        [a, b, c, d] \<Rightarrow> a \<in> {CHR ''t'', CHR ''T''} \<and> b \<in> {CHR ''r'', CHR ''R''} \<and>
                        c \<in> {CHR ''u'', CHR ''U''} \<and> d \<in> {CHR ''e'', CHR ''E''}
      | _ \<Rightarrow> False)"

definition says_true :: "string \<Rightarrow> bool" where
  "says_true s =
     (\<exists>pre core post. s = pre @ core @ post \<and> set pre \<subseteq> spec_whitespace \<and>
        set post \<subseteq> spec_whitespace \<and> spells_true core)"

text \<open>The three bounds on the aggregator's histories.\<close>

definition bounded :: "server_state \<Rightarrow> bool" where
  "bounded s =
     (length (streamWindow s) \<le> 620 \<and> length (trendWindow s) \<le> 24 \<and>
      length (liveFeed (snapshot s)) \<le> 30)"

definition cursor_ok :: "server_state \<Rightarrow> bool" where
  "cursor_ok s = (mappedRows s = [] \<or> cursor s < length (mappedRows s))"

text \<open>\<open>t\<close> batches of 45 drawn one after the other: all rows drawn, and the cursor left.\<close>

fun consecutive_draws :: "'a list \<Rightarrow> nat \<Rightarrow> nat \<Rightarrow> 'a option list \<times> nat" where
  "consecutive_draws rows c 0 = ([], c)"
| "consecutive_draws rows c (Suc t) =
     (let b = nextBatch rows c 45; rest = consecutive_draws rows (snd b) t
      in (fst b @ fst rest, snd rest))"

text \<open>The finite doubles are multiples of the least positive one, \<open>2^-1074\<close>.\<close>

definition on_grid :: "real \<Rightarrow> bool" where
  "on_grid a = (\<exists>m::int. a = of_int m * 2 powi (- 1074))"

section \<open>Example inputs\<close>

text \<open>\<open>example_Number\<close> stands for \<open>Number\<close> on the strings of the example records.\<close>

definition example_Number :: "string \<Rightarrow> jsnum" where
  "example_Number s = (if s = ''3'' then Fin 3 else NaN)"

definition example_record :: raw_record where
  "example_record = [''state'' \<mapsto> ''KS'', ''churn'' \<mapsto> '' True '',
                     ''customer service calls'' \<mapsto> ''3'']"

definition example_model :: trained_model where
  "example_model =
     \<lparr>weights = map Fin [1, - 2, 3, 0, 2, - 3, 1, 0, 2], bias = Fin 0,
      means = replicate 9 (Fin 0), stds = replicate 9 (Fin 1)\<rparr>"

definition example_row :: "jsnum \<Rightarrow> scored_row" where
  "example_row risk =
     (scoreRow example_Number (toModelRow example_Number example_record 0) example_model)
       \<lparr>churnRisk := risk\<rparr>"

definition example_env :: tick_env where
  "example_env = \<lparr>now_ms = 1000, now_time = ''12:00:00'',
                  now_iso = ''2024-01-01T12:00:00.000Z'', clock = (\<lambda>k. 1000)\<rparr>"

definition example_state :: server_state where
  "example_state =
     (initial_state ''data.csv'' ''2024-01-01T12:00:00.000Z'')
       \<lparr>mappedRows := [example_row (Fin 34), example_row (Fin 67)]\<rparr>"

definition example_metric :: platform_metric where
  "example_metric =
     \<lparr>pm_name = ''Netflix'', activeUsers = 3, avgRisk = Fin 70, serviceLoad = Fin 2,
      avgMinutes = Fin 500, pm_satisfaction = Fin 51\<rparr>"

text \<open>
  A record with 3 day minutes and 3 service calls, and two finite models for it: one
  whose weights \<open>2^1023\<close> and \<open>-2^1023\<close> make the two products overflow, one whose deviation
  \<open>2^-1074\<close> makes a standardised value overflow under a weight 0.
\<close>

definition overflow_record :: raw_record where
  "overflow_record = [''total day minutes'' \<mapsto> ''3'', ''customer service calls'' \<mapsto> ''3'']"

definition overflow_model :: trained_model where
  "overflow_model =
     \<lparr>weights = map Fin [0, 0, 0, 0, 2 ^ 1023, 0, 0, 0, - (2 ^ 1023)], bias = Fin 0,
      means = replicate 9 (Fin 0), stds = replicate 9 (Fin 1)\<rparr>"

definition tiny_std_model :: trained_model where
  "tiny_std_model =
     \<lparr>weights = map Fin [0, 0, 0, 0, 0, 0, 0, 0, 7], bias = Fin 0,
      means = replicate 9 (Fin 0),
      stds = map Fin [1, 1, 1, 1, 2 powi (- 1074), 1, 1, 1, 1]\<rparr>"

section \<open>Rounding: auxiliary facts\<close>

lemma round_even_of_int [simp]: "round_even (of_int n) = n"
  by (simp add: round_even_def)

lemma round_even_bounds: "\<lfloor>r\<rfloor> \<le> round_even r \<and> round_even r \<le> \<lfloor>r\<rfloor> + 1"
  by (simp add: round_even_def Let_def)

lemma round_even_mono: "r \<le> s \<Longrightarrow> round_even r \<le> round_even s"
proof -
  assume rs: "r \<le> s"
  then have f: "\<lfloor>r\<rfloor> \<le> \<lfloor>s\<rfloor>"
    by (rule floor_mono)
  show ?thesis
  proof (cases "\<lfloor>r\<rfloor> = \<lfloor>s\<rfloor>")
    case True
    then show ?thesis
      using rs by (auto simp: round_even_def Let_def)
  next
    case False
    with f have "\<lfloor>r\<rfloor> + 1 \<le> \<lfloor>s\<rfloor>"
      by simp
    then show ?thesis
      using round_even_bounds [of r] round_even_bounds [of s] by linarith
  qed
qed

lemma round_even_nonneg: "0 \<le> r \<Longrightarrow> 0 \<le> round_even r"
  using round_even_mono [of 0 r] by (simp add: round_even_def)

lemma powr_powi: "2 powr (of_int k) = (2::real) powi k"
  by (simp add: powr_real_of_int power_int_def power_inverse inverse_eq_divide power_divide)

text \<open>The binade of a positive number.\<close>

lemma floor_log2_bounds:
  assumes "0 < x"
  shows "2 powi \<lfloor>log 2 x\<rfloor> \<le> x \<and> x < 2 powi (\<lfloor>log 2 x\<rfloor> + 1)"
proof -
  have "2 powr (of_int \<lfloor>log 2 x\<rfloor>) \<le> x \<and> x < 2 powr (of_int (\<lfloor>log 2 x\<rfloor> + 1))"
    using floor_log_eq_powr_iff [of x 2 "\<lfloor>log 2 x\<rfloor>"] assms by simp
  then show ?thesis
    by (simp only: powr_powi)
qed

lemma floor_log2_eq:
  assumes "2 powi k \<le> x" "x < 2 powi (k + 1)"
  shows "\<lfloor>log 2 x\<rfloor> = k"
proof -
  have "0 < x"
    using assms(1) zero_less_power_int [of "2::real" k] by linarith
  moreover have "2 powr (of_int k) \<le> x \<and> x < 2 powr (of_int (k + 1))"
    using assms by (simp only: powr_powi)
  ultimately show ?thesis
    using floor_log_eq_powr_iff [of x 2 k] by simp
qed

lemma floor_log2_mono: "0 < x \<Longrightarrow> x \<le> y \<Longrightarrow> \<lfloor>log 2 x\<rfloor> \<le> \<lfloor>log 2 y\<rfloor>"
  by (intro floor_mono) simp

lemma exponent_mono: "0 < x \<Longrightarrow> x \<le> y \<Longrightarrow> exponent x \<le> exponent y"
  using floor_log2_mono [of x y] by (simp add: exponent_def)

lemma exponent_abs [simp]: "exponent \<bar>x\<bar> = exponent x"
  by (simp add: exponent_def)

lemma powi_pos [simp]: "0 < (2::real) powi k"
  by simp

text \<open>A positive number is below \<open>2^53\<close> units of its grid, and from \<open>2^52\<close> units on when
  it is normal.\<close>

lemma scaled_upper:
  assumes "0 < x"
  shows "x / 2 powi exponent x < 2 ^ 53"
proof -
  have "x < 2 powi (\<lfloor>log 2 x\<rfloor> + 1)"
    using floor_log2_bounds [OF assms] by simp
  also have "\<dots> \<le> 2 powi (exponent x + 53)"
    using assms by (intro power_int_increasing) (simp_all add: exponent_def)
  also have "\<dots> = 2 powi exponent x * 2 ^ 53"
    by (simp add: power_int_add)
  finally show ?thesis
    by (simp add: field_simps)
qed

lemma scaled_lower:
  assumes "0 < x" "- 1074 < exponent x"
  shows "2 ^ 52 \<le> x / 2 powi exponent x"
proof -
  have e: "exponent x = \<lfloor>log 2 x\<rfloor> - 52"
    using assms by (simp add: exponent_def max_def split: if_splits)
  have "(2::real) powi exponent x * 2 ^ 52 = 2 powi (exponent x + 52)"
    by (simp add: power_int_add)
  also have "\<dots> = 2 powi \<lfloor>log 2 x\<rfloor>"
    by (simp add: e)
  also have "\<dots> \<le> x"
    using floor_log2_bounds [OF assms(1)] by simp
  finally show ?thesis
    by (simp add: field_simps)
qed

lemma round_grid_pos_upper:
  assumes "0 < x"
  shows "round_grid x \<le> 2 powi (exponent x + 53)"
proof -
  have "round_even (x / 2 powi exponent x) \<le> round_even (of_int (2 ^ 53))"
    using scaled_upper [OF assms] by (intro round_even_mono) simp
  then have "round_even (x / 2 powi exponent x) \<le> 2 ^ 53"
    by (simp only: round_even_of_int)
  then have "(of_int (round_even (x / 2 powi exponent x)) :: real) \<le> 2 ^ 53"
    by (metis of_int_le_iff of_int_numeral of_int_power)
  then have "real_of_int (round_even (x / 2 powi exponent x)) * 2 powi exponent x
             \<le> 2 ^ 53 * 2 powi exponent x"
    by (intro mult_right_mono) simp_all
  also have "\<dots> = 2 powi (exponent x + 53)"
    by (simp add: power_int_add)
  finally show ?thesis
    using assms by (simp add: round_grid_def)
qed

lemma round_grid_pos_lower:
  assumes "0 < x" "- 1074 < exponent x"
  shows "2 powi (exponent x + 52) \<le> round_grid x"
proof -
  have "round_even (of_int (2 ^ 52)) \<le> round_even (x / 2 powi exponent x)"
    using scaled_lower [OF assms] by (intro round_even_mono) simp
  then have "2 ^ 52 \<le> round_even (x / 2 powi exponent x)"
    by (simp only: round_even_of_int)
  then have ge: "(2 ^ 52 :: real) \<le> of_int (round_even (x / 2 powi exponent x))"
    by (metis of_int_le_iff of_int_numeral of_int_power)
  have "(2::real) powi (exponent x + 52) = 2 ^ 52 * 2 powi exponent x"
    by (simp add: power_int_add)
  also have "\<dots> \<le> real_of_int (round_even (x / 2 powi exponent x)) * 2 powi exponent x"
    using ge by (intro mult_right_mono) simp_all
  finally show ?thesis
    using assms by (simp add: round_grid_def)
qed

lemma round_grid_nonneg: "0 \<le> x \<Longrightarrow> 0 \<le> round_grid x"
  by (simp add: round_grid_def sgn_if round_even_nonneg)

lemma round_grid_zero [simp]: "round_grid 0 = 0"
  by (simp add: round_grid_def)

lemma round_grid_minus: "round_grid (- x) = - round_grid x"
  by (simp add: round_grid_def exponent_def sgn_minus)

lemma round_grid_mono_pos:
  assumes "0 < x" "x \<le> y"
  shows "round_grid x \<le> round_grid y"
proof -
  have y: "0 < y"
    using assms by simp
  have e: "exponent x \<le> exponent y"
    using assms by (rule exponent_mono)
  show ?thesis
  proof (cases "exponent x = exponent y")
    case True
    have "x / 2 powi exponent y \<le> y / 2 powi exponent y"
      using assms(2) by (simp add: divide_right_mono)
    then have "round_even (x / 2 powi exponent y) \<le> round_even (y / 2 powi exponent y)"
      by (rule round_even_mono)
    then have "(of_int (round_even (x / 2 powi exponent y)) :: real)
               \<le> of_int (round_even (y / 2 powi exponent y))"
      by simp
    then have "real_of_int (round_even (x / 2 powi exponent y)) * 2 powi exponent y
               \<le> real_of_int (round_even (y / 2 powi exponent y)) * 2 powi exponent y"
      by (intro mult_right_mono) simp_all
    then show ?thesis
      using assms(1) y True by (simp add: round_grid_def)
  next
    case False
    with e have lt: "exponent x + 1 \<le> exponent y"
      by simp
    have "- 1074 \<le> exponent x"
      by (simp add: exponent_def)
    with lt have normal: "- 1074 < exponent y"
      by simp
    have "round_grid x \<le> 2 powi (exponent x + 53)"
      using assms(1) by (rule round_grid_pos_upper)
    also have "\<dots> \<le> 2 powi (exponent y + 52)"
      using lt by (intro power_int_increasing) simp_all
    also have "\<dots> \<le> round_grid y"
      using y normal by (rule round_grid_pos_lower)
    finally show ?thesis .
  qed
qed

lemma round_grid_mono: "x \<le> y \<Longrightarrow> round_grid x \<le> round_grid y"
proof -
  assume xy: "x \<le> y"
  consider "0 < x" | "x \<le> 0" "0 \<le> y" | "y < 0"
    by linarith
  then show ?thesis
  proof cases
    case 1
    then show ?thesis
      using xy by (rule round_grid_mono_pos)
  next
    case 2
    have "round_grid x \<le> 0"
      using round_grid_nonneg [of "- x"] 2(1) by (simp add: round_grid_minus)
    moreover have "0 \<le> round_grid y"
      using 2(2) by (rule round_grid_nonneg)
    ultimately show ?thesis
      by simp
  next
    case 3
    then have "0 < - y" "- y \<le> - x"
      using xy by simp_all
    then have "round_grid (- y) \<le> round_grid (- x)"
      by (rule round_grid_mono_pos)
    then show ?thesis
      by (simp add: round_grid_minus)
  qed
qed


subsection \<open>Representable values\<close>

lemma round_grid_grid:
  assumes "0 < x" "\<bar>x\<bar> / 2 powi exponent x = of_int n"
  shows "round_grid x = x"
proof -
  have "round_grid x = of_int n * 2 powi exponent x"
    using assms by (simp add: round_grid_def)
  also have "\<dots> = \<bar>x\<bar>"
    using assms(2) by (simp add: field_simps)
  finally show ?thesis
    using assms(1) by simp
qed

lemma round_grid_nat:
  assumes "n < 2 ^ 53"
  shows "round_grid (real n) = real n"
proof (cases "n = 0")
  case True
  then show ?thesis
    by simp
next
  case False
  then have pos: "0 < real n"
    by simp
  let ?k = "\<lfloor>log 2 (real n)\<rfloor>"
  have k0: "0 \<le> ?k"
    using False by (simp add: zero_le_log_cancel_iff)
  have "2 powi ?k \<le> real n"
    using floor_log2_bounds [OF pos] by simp
  also have "\<dots> < 2 ^ 53"
    using assms by (metis of_nat_less_iff of_nat_numeral of_nat_power)
  also have "\<dots> = (2::real) powi 53"
    by simp
  finally have lt: "2 powi ?k < (2::real) powi 53" .
  have "?k < 53"
  proof (rule ccontr)
    assume "\<not> ?k < 53"
    then have "(2::real) powi 53 \<le> 2 powi ?k"
      by (intro power_int_increasing) simp_all
    with lt show False
      by simp
  qed
  then have e: "exponent (real n) = ?k - 52" "?k - 52 \<le> 0"
    using k0 by (simp_all add: exponent_def)
  have "real n / 2 powi (?k - 52) = real n * 2 powi (52 - ?k)"
    by (simp add: power_int_diff field_simps)
  also have "\<dots> = real n * 2 ^ nat (52 - ?k)"
    using e(2) by (simp add: power_int_def)
  also have "\<dots> = of_int (int n * 2 ^ nat (52 - ?k))"
    by simp
  finally have "\<bar>real n\<bar> / 2 powi exponent (real n) = of_int (int n * 2 ^ nat (52 - ?k))"
    by (simp add: e(1))
  with pos show ?thesis
    by (rule round_grid_grid)
qed

lemma round_grid_pow2:
  assumes "- 1074 \<le> k"
  shows "round_grid (2 powi k) = 2 powi k"
proof -
  have lg: "\<lfloor>log 2 (2 powi k)\<rfloor> = k"
    by (intro floor_log2_eq) (simp_all add: power_int_add)
  have e: "exponent (2 powi k) = max (k - 52) (- 1074)"
    by (simp add: exponent_def lg)
  have "(2::real) powi k / 2 powi max (k - 52) (- 1074) = 2 powi (k - max (k - 52) (- 1074))"
    by (simp add: power_int_diff)
  also have "\<dots> = 2 ^ nat (k - max (k - 52) (- 1074))"
    using assms by (simp add: power_int_def)
  also have "\<dots> = of_int (2 ^ nat (k - max (k - 52) (- 1074)))"
    by simp
  finally have "\<bar>2 powi k\<bar> / 2 powi exponent (2 powi k)
                = real_of_int (2 ^ nat (k - max (k - 52) (- 1074)))"
    by (simp add: e)
  moreover have "(0::real) < 2 powi k"
    by simp
  ultimately show ?thesis
    by (intro round_grid_grid)
qed

subsection \<open>Rounding to a double\<close>

lemma round_double_not_NaN [simp]: "round_double x \<noteq> NaN"
  by (simp add: round_double_def)

lemma round_double_0 [simp]: "round_double 0 = Fin 0"
  by (simp add: round_double_def)

lemma round_double_nat:
  assumes "n < 2 ^ 53"
  shows "round_double (real n) = Fin (real n)"
proof -
  have "real n < 2 ^ 53"
    using assms by (metis of_nat_less_iff of_nat_numeral of_nat_power)
  also have "\<dots> \<le> (2::real) ^ 1024"
    by (intro power_increasing) simp_all
  finally show ?thesis
    by (simp add: round_double_def round_grid_nat [OF assms])
qed

lemma round_double_overflow:
  assumes "2 ^ 1024 \<le> x"
  shows "round_double x = PInf"
proof -
  have "round_grid (2 powi 1024) \<le> round_grid x"
    using assms by (intro round_grid_mono) simp
  then have "2 ^ 1024 \<le> round_grid x"
    using round_grid_pow2 [of 1024] by simp
  moreover have "0 < x"
    using assms by (smt (verit) zero_less_power)
  ultimately show ?thesis
    by (simp add: round_double_def)
qed


lemma round_grid_nonpos: "x \<le> 0 \<Longrightarrow> round_grid x \<le> 0"
  using round_grid_nonneg [of "- x"] by (simp add: round_grid_minus)

lemma round_double_overflow_neg:
  assumes "x \<le> - (2 ^ 1024)"
  shows "round_double x = NInf"
proof -
  have "round_grid x \<le> round_grid (- (2 powi 1024))"
    using assms by (intro round_grid_mono) simp
  then have "round_grid x \<le> - (2 ^ 1024)"
    using round_grid_pow2 [of 1024] by (simp add: round_grid_minus)
  moreover have "x < 0"
    using assms by (smt (verit) zero_less_power)
  ultimately show ?thesis
    by (simp add: round_double_def)
qed

lemma round_double_numeral [simp]:
  "(numeral k :: nat) < 2 ^ 53 \<Longrightarrow> round_double (numeral k) = Fin (numeral k)"
  using round_double_nat [of "numeral k"] by simp

lemma round_double_1 [simp]: "round_double 1 = Fin 1"
  using round_double_nat [of 1] by simp

lemma round_double_neg_numeral [simp]:
  assumes "(numeral k :: nat) < 2 ^ 53"
  shows "round_double (- numeral k) = Fin (- numeral k)"
proof -
  have g: "round_grid (numeral k) = numeral k"
    using round_grid_nat [OF assms] by simp
  have "(numeral k :: real) < 2 ^ 53"
    using assms by (metis of_nat_less_iff of_nat_numeral of_nat_power)
  also have "\<dots> \<le> (2::real) ^ 1024"
    by (intro power_increasing) simp_all
  finally show ?thesis
    by (simp add: round_double_def round_grid_minus g)
qed

text \<open>Rounding keeps the order.\<close>

lemma round_double_mono:
  assumes "x \<le> y"
  shows "jle (round_double x) (round_double y)"
proof -
  have g: "round_grid x \<le> round_grid y"
    using assms by (rule round_grid_mono)
  have sx: "0 < x \<Longrightarrow> 0 \<le> round_grid x" "\<not> 0 < x \<Longrightarrow> round_grid x \<le> 0"
    by (simp_all add: round_grid_nonneg round_grid_nonpos)
  have sy: "0 < y \<Longrightarrow> 0 \<le> round_grid y" "\<not> 0 < y \<Longrightarrow> round_grid y \<le> 0"
    by (simp_all add: round_grid_nonneg round_grid_nonpos)
  show ?thesis
  proof (cases "0 < x")
    case True
    then have "0 < y"
      using assms by simp
    then show ?thesis
      using True g sx(1) sy(1) by (auto simp: round_double_def)
  next
    case False
    show ?thesis
    proof (cases "0 < y")
      case True
      then show ?thesis
        using False g sx(2) sy(1) by (auto simp: round_double_def)
    next
      case y: False
      then show ?thesis
        using False g sx(2) sy(2) by (auto simp: round_double_def)
    qed
  qed
qed

lemma round_double_lower:
  assumes "round_double a = Fin a" "a \<le> x"
  shows "jle (Fin a) (round_double x)"
  using round_double_mono [OF assms(2)] by (simp add: assms(1))

lemma round_double_upper:
  assumes "round_double b = Fin b" "x \<le> b"
  shows "jle (round_double x) (Fin b)"
  using round_double_mono [OF assms(2)] by (simp add: assms(1))

text \<open>The rounding of a normal number, its binary exponent known.\<close>

lemma round_grid_eval:
  assumes "2 powi k \<le> x" "x < 2 powi (k + 1)" "- 1022 \<le> k"
  shows "round_grid x = of_int (round_even (x / 2 powi (k - 52))) * 2 powi (k - 52)"
proof -
  have pos: "0 < x"
    using assms(1) zero_less_power_int [of "2::real" k] by linarith
  have "\<lfloor>log 2 x\<rfloor> = k"
    using assms(1,2) by (rule floor_log2_eq)
  then have "exponent x = k - 52"
    using pos assms(3) by (simp add: exponent_def)
  then show ?thesis
    using pos by (simp add: round_grid_def)
qed

text \<open>
  Two roundings of the arithmetic: \<open>49 * (1 / 49)\<close> is the double just below 1, and
  \<open>2^53 + 1\<close> is \<open>2^53\<close>.
\<close>

lemma reciprocal_49: "jdiv (Fin 1) (Fin 49) = Fin (5882252574524729 * 2 powi (- 58))"
proof -
  have r: "round_even (1 / 49 / 2 powi (- 6 - 52)) = 5882252574524729"
    by (simp add: round_even_def Let_def)
  have "round_grid (1 / 49) = of_int (round_even (1 / 49 / 2 powi (- 6 - 52))) * 2 powi (- 6 - 52)"
    by (rule round_grid_eval) simp_all
  then have "round_grid (1 / 49) = 5882252574524729 * 2 powi (- 58)"
    unfolding r by simp
  then show ?thesis
    by (simp add: round_double_def)
qed

lemma product_49: "jmul (Fin 49) (jdiv (Fin 1) (Fin 49)) = Fin (1 - 2 powi (- 53))"
proof -
  let ?x = "49 * (5882252574524729 * 2 powi (- 58)) :: real"
  have r: "round_even (?x / 2 powi (- 1 - 52)) = 9007199254740991"
    by (simp add: round_even_def Let_def)
  have "round_grid ?x = of_int (round_even (?x / 2 powi (- 1 - 52))) * 2 powi (- 1 - 52)"
    by (rule round_grid_eval) simp_all
  then have "round_grid ?x = 1 - 2 powi (- 53)"
    unfolding r by simp
  then have "round_double ?x = Fin (1 - 2 powi (- 53))"
    by (simp add: round_double_def)
  then show ?thesis
    unfolding reciprocal_49 by simp
qed

lemma sum_2_53: "jadd (Fin (2 ^ 53)) (Fin 1) = Fin (2 ^ 53)"
proof -
  let ?x = "2 ^ 53 + 1 :: real"
  have r: "round_even (?x / 2 powi (53 - 52)) = 4503599627370496"
    by (simp add: round_even_def Let_def)
  have "round_grid ?x = of_int (round_even (?x / 2 powi (53 - 52))) * 2 powi (53 - 52)"
    by (rule round_grid_eval) simp_all
  then have "round_grid ?x = 2 ^ 53"
    unfolding r by simp
  then show ?thesis
    by (simp add: round_double_def)
qed

section \<open>Numbers: auxiliary facts\<close>

lemma jmul_NaN_right [simp]: "jmul x NaN = NaN"
  by (cases x) simp_all

lemma jadd_NaN_right [simp]: "jadd x NaN = NaN"
  by (cases x) simp_all

lemma jsub_NaN_right [simp]: "jsub x NaN = NaN"
  by (simp add: jsub_def)

lemma jle_NaN_right [simp]: "\<not> jle x NaN"
  by (cases x) simp_all

lemma map_upt_const: "(\<And>j. j < m \<Longrightarrow> f j = c) \<Longrightarrow> map f [0..<m] = replicate m c"
  by (simp add: list_eq_iff_nth_eq)

lemma length_featureDefs [simp]: "length featureDefs = 9"
  by (simp add: featureDefs_def)

lemma toNum_finite [simp]: "isFinite (toNum Number v)"
  by (simp add: toNum_def Let_def)

lemma serviceCalls_finite [simp]: "isFinite (serviceCalls (toModelRow Number row idx))"
  by (simp add: toModelRow_def Let_def)

lemma length_featureVector [simp]: "length (featureVector Number row) = 9"
  by (simp add: featureVector_def)

lemma standardize_length [simp]: "length (standardize mu sd row) = length row"
  by (simp add: standardize_def)

lemma standardize_nth:
  "j < length row \<Longrightarrow>
   standardize mu sd row ! j = jdiv (jsub (row ! j) (num_at mu j)) (num_at sd j)"
  by (simp add: standardize_def)

section \<open>Training on the empty row list\<close>

lemma column_mean_empty: "column_mean [] = (\<lambda>j. NaN)"
  by (rule ext) (simp add: column_mean_def)

lemma column_std_empty: "column_std [] = (\<lambda>j. Fin 1)"
  by (rule ext) (simp add: column_std_def Math_max_def num_or_def truthy_def)

lemma epoch_step_empty: "epoch_step m lr l2 [] [] = (\<lambda>wb. (replicate m NaN, NaN))"
  by (rule ext) (simp add: epoch_step_def Let_def num_at_def map_upt_const)

text \<open>
  With no rows the column means are \<open>0 / 0\<close>, and so is every gradient: after one epoch or
  more all weights and the bias are \<open>NaN\<close>, whatever the learning rate and the penalty.
  With no epoch at all the weights and the bias stay \<open>0\<close> and the means are \<open>NaN\<close>.
\<close>

lemma train_empty_epochs:
  "trainLogisticRegression Number [] (Suc k) lr l2 =
     \<lparr>weights = replicate 9 NaN, bias = NaN, means = replicate 9 NaN,
      stds = replicate 9 (Fin 1)\<rparr>"
  by (simp add: trainLogisticRegression_def Let_def epoch_step_empty column_mean_empty
      column_std_empty map_replicate_const del: replicate_Suc upt_Suc)

lemma train_empty_no_epoch:
  "trainLogisticRegression Number [] 0 lr l2 =
     \<lparr>weights = replicate 9 (Fin 0), bias = Fin 0, means = replicate 9 NaN,
      stds = replicate 9 (Fin 1)\<rparr>"
  by (simp add: trainLogisticRegression_def Let_def column_mean_empty
      column_std_empty map_replicate_const del: replicate_Suc upt_Suc)

text \<open>
  C1. The claim asks for an all-zero model when the row list is empty. The code returns
  without raising, but the model it returns for the empty list, with the parameters the
  reload uses (650 epochs, learning rate 0.07, penalty 0.0007), has every weight, the bias
  and every mean equal to \<open>NaN\<close>: the divisions by the row count \<open>n = 0\<close> are not guarded.
\<close>

theorem train_empty_rows_is_NaN:
  "trainLogisticRegression Number [] 650 (round_double (7 / 100)) (round_double (7 / 10000)) =
     \<lparr>weights = replicate 9 NaN, bias = NaN, means = replicate 9 NaN,
      stds = replicate 9 (Fin 1)\<rparr>"
  using train_empty_epochs [of Number 649] by simp

section \<open>Scoring\<close>

lemma upt_9: "[0..<9] = [0, 1, 2, 3, 4, 5, 6, 7, 8 :: nat]"
  by (simp add: upt_eq_Cons_conv)

text \<open>Rounding a value between two doubles stays between them.\<close>

lemma round_double_above:
  assumes "round_double a = Fin a" "0 \<le> a" "a \<le> t"
  shows "round_double t = PInf \<or> (\<exists>w. round_double t = Fin w \<and> a \<le> w)"
proof -
  have le: "jle (Fin a) (round_double t)"
    using assms(1,3) by (rule round_double_lower)
  have t: "\<not> t < 0"
    using assms(2,3) by simp
  show ?thesis
  proof (cases "round_double t")
    case NZero
    then show ?thesis
      using t by (simp add: round_double_def split: if_splits)
  qed (use le in simp_all)
qed

lemma round_double_between:
  assumes "round_double b = Fin b" "0 \<le> t" "t \<le> b"
  shows "\<exists>w. round_double t = Fin w \<and> 0 \<le> w \<and> w \<le> b"
proof -
  have "round_double t = PInf \<or> (\<exists>w. round_double t = Fin w \<and> 0 \<le> w)"
    using round_double_above [of 0 t] assms(2) by simp
  moreover have "jle (round_double t) (Fin b)"
    using assms(1,3) by (rule round_double_upper)
  ultimately show ?thesis
    by auto
qed

lemma jmul_between:
  assumes "round_double (a * b) = Fin (a * b)" "0 \<le> s" "s \<le> a" "0 \<le> t" "t \<le> b"
  shows "\<exists>w. jmul (Fin s) (Fin t) = Fin w \<and> 0 \<le> w \<and> w \<le> a * b"
proof (cases "s = 0 \<or> t = 0")
  case True
  then show ?thesis
    using assms by auto
next
  case False
  have "s * t \<le> a * b"
    using assms by (intro mult_mono) simp_all
  moreover have "0 \<le> s * t"
    using assms by simp
  ultimately show ?thesis
    using False round_double_between [OF assms(1), of "s * t"] by simp
qed

lemma sigmoid_range:
  assumes "z \<noteq> NaN"
  shows "\<exists>s. sigmoid z = Fin s \<and> 0 \<le> s \<and> s \<le> 1"
proof -
  have e: "Math_exp (jneg z) = PInf \<or> (\<exists>v. Math_exp (jneg z) = Fin v \<and> 0 \<le> v)"
  proof (cases z)
    case (Fin x)
    then show ?thesis
      using round_double_above [of 0 "exp (- x)"] by simp
  qed (use assms in simp_all)
  then have d: "jadd (Fin 1) (Math_exp (jneg z)) = PInf \<or>
                (\<exists>w. jadd (Fin 1) (Math_exp (jneg z)) = Fin w \<and> 1 \<le> w)"
  proof
    assume "Math_exp (jneg z) = PInf"
    then show ?thesis
      by simp
  next
    assume "\<exists>v. Math_exp (jneg z) = Fin v \<and> 0 \<le> v"
    then obtain v where v: "Math_exp (jneg z) = Fin v" "0 \<le> v"
      by blast
    then show ?thesis
      using round_double_above [of 1 "1 + v"] by simp
  qed
  then show ?thesis
  proof
    assume "jadd (Fin 1) (Math_exp (jneg z)) = PInf"
    then show ?thesis
      by (simp add: sigmoid_def)
  next
    assume "\<exists>w. jadd (Fin 1) (Math_exp (jneg z)) = Fin w \<and> 1 \<le> w"
    then obtain w where w: "jadd (Fin 1) (Math_exp (jneg z)) = Fin w" "1 \<le> w"
      by blast
    then have "0 \<le> 1 / w" "1 / w \<le> 1"
      by simp_all
    from round_double_between [OF round_double_1 this] show ?thesis
      using w by (simp add: sigmoid_def)
  qed
qed

text \<open>Rounding to two decimals keeps a value between \<open>0\<close> and a whole bound.\<close>

lemma toFixed_bounds:
  fixes B :: int
  assumes "round_double (of_int B) = Fin (of_int B)" "0 \<le> x" "x \<le> of_int B"
  shows "\<exists>y. toFixed 2 (Fin x) = Fin y \<and> 0 \<le> y \<and> y \<le> of_int B"
proof -
  let ?n = "\<lfloor>\<bar>x\<bar> * 10 ^ 2 + 1 / 2\<rfloor>"
  have n0: "0 \<le> ?n"
    using assms(2) by simp
  have "\<bar>x\<bar> * 10 ^ 2 + 1 / 2 < of_int (B * 100 + 1)"
    using assms by simp
  then have "?n < B * 100 + 1"
    unfolding floor_less_iff .
  then have nB: "?n \<le> B * 100"
    by linarith
  have "(0::real) \<le> of_int ?n / 10 ^ 2"
    using n0 by simp
  moreover have "of_int ?n / 10 ^ 2 \<le> (of_int B :: real)"
  proof -
    have "(of_int ?n :: real) \<le> of_int (B * 100)"
      using nB by linarith
    then show ?thesis
      by (simp add: field_simps)
  qed
  ultimately have "\<exists>w. round_double (of_int ?n / 10 ^ 2) = Fin w \<and> 0 \<le> w \<and> w \<le> of_int B"
    using round_double_between [OF assms(1)] by blast
  then show ?thesis
    using assms(2) by simp
qed

lemma clamp01_range:
  assumes "q \<noteq> NaN"
  shows "\<exists>t. clamp01 q = Fin t \<and> 0 \<le> t \<and> t \<le> 1"
  using assms by (cases q) (auto simp: clamp01_def Math_max_def Math_min_def)

lemma Math_clamp_Fin: "Math_max (Fin lo) (Math_min (Fin hi) (Fin v)) = Fin (max lo (min hi v))"
  by (auto simp: Math_max_def Math_min_def max_def min_def)

lemma churnRisk_eq:
  "churnRisk (scoreRow Number row m) =
     toFixed 2 (jmul (sigmoid (row_score Number row m)) (Fin 100))"
  by (simp add: scoreRow_def Let_def model_row.extend_def row_score_def)

lemma bufferingRate_eq:
  "bufferingRate (scoreRow Number row m) =
     toFixed 2 (jmul (clamp01 (jdiv (serviceCalls row) (Fin 8))) (Fin 6))"
  by (simp add: scoreRow_def Let_def model_row.extend_def)

lemma satisfaction_eq:
  "satisfaction (scoreRow Number row m) =
     Math_max (Fin 20) (Math_min (Fin 99)
       (Math_round (jsub (Fin 100)
          (jmul (churnRisk (scoreRow Number row m)) (round_double (7 / 10))))))"
  by (simp add: scoreRow_def Let_def model_row.extend_def)

lemma churnRisk_bounds:
  assumes "row_score Number row m \<noteq> NaN"
  shows "\<exists>c. churnRisk (scoreRow Number row m) = Fin c \<and> 0 \<le> c \<and> c \<le> 100"
proof -
  obtain s where s: "sigmoid (row_score Number row m) = Fin s" "0 \<le> s" "s \<le> 1"
    using sigmoid_range [OF assms] by blast
  have "\<exists>w. jmul (Fin s) (Fin 100) = Fin w \<and> 0 \<le> w \<and> w \<le> 1 * 100"
    using s by (intro jmul_between) simp_all
  then obtain w where w: "jmul (Fin s) (Fin 100) = Fin w" "0 \<le> w" "w \<le> of_int 100"
    by auto
  have "round_double (of_int 100) = Fin (of_int 100)"
    by simp
  from toFixed_bounds [OF this w(2,3)] show ?thesis
    unfolding churnRisk_eq s(1) w(1) by simp
qed

lemma bufferingRate_bounds:
  assumes "isFinite (serviceCalls row)"
  shows "\<exists>b. bufferingRate (scoreRow Number row m) = Fin b \<and> 0 \<le> b \<and> b \<le> 6"
proof -
  have "jdiv (serviceCalls row) (Fin 8) \<noteq> NaN"
    using assms by (cases "serviceCalls row") simp_all
  then obtain t where t: "clamp01 (jdiv (serviceCalls row) (Fin 8)) = Fin t" "0 \<le> t" "t \<le> 1"
    using clamp01_range by blast
  have "\<exists>w. jmul (Fin t) (Fin 6) = Fin w \<and> 0 \<le> w \<and> w \<le> 1 * 6"
    using t by (intro jmul_between) simp_all
  then obtain w where w: "jmul (Fin t) (Fin 6) = Fin w" "0 \<le> w" "w \<le> of_int 6"
    by auto
  have "round_double (of_int 6) = Fin (of_int 6)"
    by simp
  from toFixed_bounds [OF this w(2,3)] show ?thesis
    unfolding bufferingRate_eq t(1) w(1) by simp
qed

lemma satisfaction_clamp:
  assumes "churnRisk (scoreRow Number row m) = Fin c" "0 \<le> c" "c \<le> 100"
  shows "\<exists>u. jsub (Fin 100) (jmul (Fin c) (round_double (7 / 10))) = Fin u \<and>
             satisfaction (scoreRow Number row m) = Fin (clamp (of_int \<lfloor>u + 1 / 2\<rfloor>) 20 99)"
proof -
  obtain k where k: "round_double (7 / 10) = Fin k" "0 \<le> k" "k \<le> 1"
    using round_double_between [OF round_double_1, of "7 / 10"] by auto
  have "\<exists>w. jmul (Fin c) (Fin k) = Fin w \<and> 0 \<le> w \<and> w \<le> 100 * 1"
    using assms k by (intro jmul_between) simp_all
  then obtain v where v: "jmul (Fin c) (Fin k) = Fin v" "0 \<le> v" "v \<le> 100"
    by auto
  have "\<exists>u. jsub (Fin 100) (Fin v) = Fin u \<and> 0 \<le> u"
  proof (cases "v = 0")
    case True
    then show ?thesis
      by (simp add: jsub_def)
  next
    case False
    have "\<exists>w. round_double (100 - v) = Fin w \<and> 0 \<le> w \<and> w \<le> 100"
      using v by (intro round_double_between) simp_all
    then show ?thesis
      using False by (auto simp: jsub_def)
  qed
  then obtain u where u: "jsub (Fin 100) (Fin v) = Fin u" "0 \<le> u"
    by blast
  have "\<not> (\<lfloor>u + 1 / 2\<rfloor> = 0 \<and> u < 0)"
    using u(2) by simp
  then have "Math_round (Fin u) = Fin (of_int \<lfloor>u + 1 / 2\<rfloor>)"
    by simp
  then have "satisfaction (scoreRow Number row m) = Fin (clamp (of_int \<lfloor>u + 1 / 2\<rfloor>) 20 99)"
    unfolding satisfaction_eq assms(1) k(1) v(1) u(1) by (simp add: Math_clamp_Fin clamp_def)
  then show ?thesis
    using u(1) unfolding k(1) v(1) by simp
qed

lemma overflow_features:
  "featureVector example_Number overflow_record =
     [Fin 0, Fin 0, Fin 0, Fin 0, Fin 3, Fin 0, Fin 0, Fin 0, Fin 3]"
  by (simp add: featureVector_def featureDefs_def featureValue_def toNum_def toBoolYes_def
      overflow_record_def example_Number_def str_or_def trim_def toLowerCase_def Let_def)

lemma overflow_standardized:
  "standardize (replicate 9 (Fin 0)) (replicate 9 (Fin 1)) [Fin 0, Fin 0, Fin 0, Fin 0, Fin 3, Fin 0, Fin 0, Fin 0, Fin 3]
     = [Fin 0, Fin 0, Fin 0, Fin 0, Fin 3, Fin 0, Fin 0, Fin 0, Fin 3]"
  by (simp add: standardize_def upt_9 num_at_def jsub_def)

lemma overflow_model_finite: "finite_model overflow_model"
  by (simp add: finite_model_def overflow_model_def list_all_iff)

lemma overflow_score:
  "row_score example_Number (toModelRow example_Number overflow_record 0) overflow_model = NaN"
proof -
  have up: "round_double (2 ^ 1023 * 3) = PInf"
    by (rule round_double_overflow) simp
  have down: "round_double (- (2 ^ 1023 * 3)) = NInf"
    by (rule round_double_overflow_neg) simp
  have raw: "raw (toModelRow example_Number overflow_record 0) = overflow_record"
    by (simp add: toModelRow_def Let_def)
  show ?thesis
    using up down
    by (simp add: row_score_def raw overflow_features overflow_model_def overflow_standardized
        weighted_sum_def upt_9 num_at_def)
qed

text \<open>
  C2 as stated fails: \<open>overflow_model\<close> has finite weights and means and deviations 1,
  yet on the record with 3 day minutes and 3 service calls the two products
  \<open>2^1023 * 3\<close> and \<open>-2^1023 * 3\<close> overflow to \<open>+Infinity\<close> and \<open>-Infinity\<close>, their sum is
  \<open>NaN\<close>, and so are the churn risk and the satisfaction of the scored row.
\<close>

theorem scoreRow_overflow_counterexample:
  "finite_model overflow_model \<and>
   churnRisk (scoreRow example_Number (toModelRow example_Number overflow_record 0)
                overflow_model) = NaN \<and>
   satisfaction (scoreRow example_Number (toModelRow example_Number overflow_record 0)
                   overflow_model) = NaN \<and>
   \<not> jle (Fin 0) (churnRisk (scoreRow example_Number
                     (toModelRow example_Number overflow_record 0) overflow_model))"
proof -
  have "churnRisk (scoreRow example_Number (toModelRow example_Number overflow_record 0)
                overflow_model) = NaN"
    by (simp add: churnRisk_eq overflow_score sigmoid_def)
  then show ?thesis
    using overflow_model_finite by (simp add: satisfaction_eq Math_max_def Math_min_def)
qed

text \<open>
  C2, amended. For every raw record and index, and every trained model with finite
  parameters and non-zero deviations for which the linear score \<open>z\<close> of the record's model
  row is not \<open>NaN\<close>, the scored row has \<open>0 \<le> churnRisk \<le> 100\<close>, \<open>20 \<le> satisfaction \<le> 99\<close> and
  \<open>0 \<le> bufferingRate \<le> 6\<close> (as JavaScript comparisons, so none of the three is \<open>NaN\<close>), and
  the satisfaction is \<open>clamp(round(100 - churnRisk * 0.7), 20, 99)\<close>, the difference and
  the product being those of the numbers and \<open>round\<close> being \<open>Math.round\<close>.
\<close>

theorem scoreRow_bounds:
  fixes Number :: "string \<Rightarrow> jsnum" and rec :: raw_record and idx :: nat
    and m :: trained_model
  defines "r \<equiv> scoreRow Number (toModelRow Number rec idx) m"
  assumes "finite_model m" and "row_score Number (toModelRow Number rec idx) m \<noteq> NaN"
  shows "jle (Fin 0) (churnRisk r) \<and> jle (churnRisk r) (Fin 100) \<and>
         jle (Fin 20) (satisfaction r) \<and> jle (satisfaction r) (Fin 99) \<and>
         jle (Fin 0) (bufferingRate r) \<and> jle (bufferingRate r) (Fin 6) \<and>
         (\<exists>c u. churnRisk r = Fin c \<and>
                jsub (Fin 100) (jmul (Fin c) (round_double (7 / 10))) = Fin u \<and>
                satisfaction r = Fin (clamp (of_int \<lfloor>u + 1 / 2\<rfloor>) 20 99))"
proof -
  obtain c where c: "churnRisk r = Fin c" "0 \<le> c" "c \<le> 100"
    using churnRisk_bounds [OF assms(3)] unfolding r_def by blast
  obtain b where b: "bufferingRate r = Fin b" "0 \<le> b" "b \<le> 6"
    using bufferingRate_bounds [OF serviceCalls_finite] unfolding r_def by blast
  obtain u where u: "jsub (Fin 100) (jmul (Fin c) (round_double (7 / 10))) = Fin u"
    "satisfaction r = Fin (clamp (of_int \<lfloor>u + 1 / 2\<rfloor>) 20 99)"
    using satisfaction_clamp [OF c [unfolded r_def]] unfolding r_def by blast
  have "20 \<le> clamp (of_int \<lfloor>u + 1 / 2\<rfloor>) 20 99" "clamp (of_int \<lfloor>u + 1 / 2\<rfloor>) 20 99 \<le> 99"
    by (simp_all add: clamp_def)
  with c b u show ?thesis
    by simp
qed

lemma example_model_finite: "finite_model example_model"
  by (simp add: finite_model_def example_model_def list_all_iff)

lemma example_features:
  "featureVector example_Number example_record =
     [Fin 0, Fin 0, Fin 0, Fin 0, Fin 0, Fin 0, Fin 0, Fin 0, Fin 3]"
  by (simp add: featureVector_def featureDefs_def featureValue_def toNum_def toBoolYes_def
      example_record_def example_Number_def str_or_def trim_def toLowerCase_def Let_def)

lemma example_standardized:
  "standardize (replicate 9 (Fin 0)) (replicate 9 (Fin 1)) [Fin 0, Fin 0, Fin 0, Fin 0, Fin 0, Fin 0, Fin 0, Fin 0, Fin 3]
     = [Fin 0, Fin 0, Fin 0, Fin 0, Fin 0, Fin 0, Fin 0, Fin 0, Fin 3]"
  by (simp add: standardize_def upt_9 num_at_def jsub_def)

lemma example_raw: "raw (toModelRow example_Number example_record 0) = example_record"
  by (simp add: toModelRow_def Let_def)

lemma example_score:
  "row_score example_Number (toModelRow example_Number example_record 0) example_model = Fin 6"
  by (simp add: row_score_def example_raw example_features example_model_def
      example_standardized weighted_sum_def upt_9 num_at_def)

theorem scoreRow_bounds_witness:
  "finite_model example_model \<and>
   row_score example_Number (toModelRow example_Number example_record 0) example_model \<noteq> NaN \<and>
   jle (Fin 0) (churnRisk (scoreRow example_Number
                  (toModelRow example_Number example_record 0) example_model)) \<and>
   jle (churnRisk (scoreRow example_Number
                  (toModelRow example_Number example_record 0) example_model)) (Fin 100) \<and>
   jle (bufferingRate (scoreRow example_Number
                  (toModelRow example_Number example_record 0) example_model)) (Fin 6)"
proof -
  have s: "row_score example_Number (toModelRow example_Number example_record 0) example_model
           \<noteq> NaN"
    by (simp add: example_score)
  from scoreRow_bounds [OF example_model_finite s] example_model_finite s show ?thesis
    by blast
qed

text \<open>
  C9. The scored row keeps every field of the model row it was made from (identifier,
  state, platform, tier, label, minutes, service calls, interaction pulse and raw record);
  what it has beyond them are the four derived fields of the record type \<open>scored_row\<close>.
\<close>

theorem scoreRow_keeps_model_row:
  "row_id (scoreRow Number row m) = row_id row \<and>
   state (scoreRow Number row m) = state row \<and>
   platform (scoreRow Number row m) = platform row \<and>
   tier (scoreRow Number row m) = tier row \<and>
   actualChurn (scoreRow Number row m) = actualChurn row \<and>
   minutes (scoreRow Number row m) = minutes row \<and>
   serviceCalls (scoreRow Number row m) = serviceCalls row \<and>
   interactionPulse (scoreRow Number row m) = interactionPulse row \<and>
   raw (scoreRow Number row m) = raw row \<and>
   model_row.truncate (scoreRow Number row m) = row"
  by (simp add: scoreRow_def Let_def model_row.extend_def model_row.truncate_def)

section \<open>Reload\<close>

text \<open>
  C5. For every prior state and every dataset path at which the file system has nothing,
  the reload returns \<open>false\<close> and the module's variables (the published state with its
  dataset information, the model, the scored rows, the cursor, the window and the trend
  history) are what they were before the call.
\<close>

theorem initData_missing_path:
  "fs (resolve csvPath) = None \<Longrightarrow> initData Number resolve fs csvPath s = (False, s)"
  by (simp add: initData_def loadDataset_def)

theorem initData_missing_path_witness:
  "Map.empty ((\<lambda>p. p) ''missing.csv'') = (None :: fs_node option) \<and>
   initData example_Number (\<lambda>p. p) Map.empty ''missing.csv'' example_state
     = (False, example_state)"
  using initData_missing_path [of Map.empty "\<lambda>p. p" "''missing.csv''" example_Number example_state]
  by simp

text \<open>Any reload that fails leaves the variables alone: the loader is the only step that can
  raise, and it runs before the first assignment.\<close>

lemma initData_failure_keeps_state:
  "initData Number resolve fs csvPath s = (False, s2) \<Longrightarrow> s2 = s"
  by (auto simp: initData_def Let_def split: sum.splits)


section \<open>Risk distribution\<close>

lemma band_counts:
  "map users (getRiskDistribution rows) =
     [length (filter (\<lambda>row. jge (churnRisk row) (Fin 0) \<and> jlt (churnRisk row) (Fin 34)) rows),
      length (filter (\<lambda>row. jge (churnRisk row) (Fin 34) \<and> jlt (churnRisk row) (Fin 67)) rows),
      length (filter (\<lambda>row. jge (churnRisk row) (Fin 67) \<and> jlt (churnRisk row) (Fin 101)) rows)]"
  by (simp add: getRiskDistribution_def buckets_def Let_def bucket.extend_def)

lemma band_names:
  "map b_name (getRiskDistribution rows) = [''Low'', ''Medium'', ''High'']"
  by (simp add: getRiskDistribution_def buckets_def Let_def bucket.extend_def)

lemma bands_sum:
  assumes "list_all (\<lambda>row. jle (Fin 0) (churnRisk row) \<and> jle (churnRisk row) (Fin 100)) rows"
  shows "length (filter (\<lambda>row. jge (churnRisk row) (Fin 0) \<and> jlt (churnRisk row) (Fin 34)) rows) +
      length (filter (\<lambda>row. jge (churnRisk row) (Fin 34) \<and> jlt (churnRisk row) (Fin 67)) rows) +
      length (filter (\<lambda>row. jge (churnRisk row) (Fin 67) \<and> jlt (churnRisk row) (Fin 101)) rows)
      = length rows"
  using assms
proof (induction rows)
  case Nil
  then show ?case
    by simp
next
  case (Cons r rows)
  then have v: "churnRisk r = NZero \<or> (\<exists>v. churnRisk r = Fin v \<and> 0 \<le> v \<and> v \<le> 100)"
    by (cases "churnRisk r") simp_all
  from Cons have
    "list_all (\<lambda>row. jle (Fin 0) (churnRisk row) \<and> jle (churnRisk row) (Fin 100)) rows"
    by simp
  from Cons.IH [OF this] v show ?case
    by (auto simp: jge_def)
qed

text \<open>
  C3. For every window whose rows have \<open>0 \<le> churnRisk \<le> 100\<close>, the user counts of the three
  buckets \<open>Low\<close>, \<open>Medium\<close>, \<open>High\<close> add up to the length of the window. The bands are
  half-open: one more row with risk exactly 34 adds one to \<open>Medium\<close> and nothing to the
  other two, one more row with risk exactly 67 adds one to \<open>High\<close> and nothing to the
  other two.
\<close>

theorem getRiskDistribution_counts:
  assumes "list_all (\<lambda>row. jle (Fin 0) (churnRisk row) \<and> jle (churnRisk row) (Fin 100)) rows"
  shows "sum_list (map users (getRiskDistribution rows)) = length rows \<and>
   map b_name (getRiskDistribution rows) = [''Low'', ''Medium'', ''High''] \<and>
   map users (getRiskDistribution (r\<lparr>churnRisk := Fin 34\<rparr> # rows)) =
     map2 (+) [0, 1, 0] (map users (getRiskDistribution rows)) \<and>
   map users (getRiskDistribution (r\<lparr>churnRisk := Fin 67\<rparr> # rows)) =
     map2 (+) [0, 0, 1] (map users (getRiskDistribution rows))"
  using bands_sum [OF assms] by (simp add: band_counts band_names jge_def add.assoc)

lemma churnRisk_example_row [simp]: "churnRisk (example_row x) = x"
  by (simp add: example_row_def)

theorem getRiskDistribution_counts_witness:
  "list_all (\<lambda>row. jle (Fin 0) (churnRisk row) \<and> jle (churnRisk row) (Fin 100))
     [example_row (Fin 10), example_row (Fin 100)] \<and>
   sum_list (map users (getRiskDistribution [example_row (Fin 10), example_row (Fin 100)])) = 2 \<and>
   map users (getRiskDistribution
       [(example_row (Fin 0))\<lparr>churnRisk := Fin 34\<rparr>, example_row (Fin 10), example_row (Fin 100)])
     = map2 (+) [0, 1, 0]
         (map users (getRiskDistribution [example_row (Fin 10), example_row (Fin 100)]))"
  using getRiskDistribution_counts
    [of "[example_row (Fin 10), example_row (Fin 100)]" "example_row (Fin 0)"]
  by simp


section \<open>Risk drivers\<close>

text \<open>Every finite result of an operation is a multiple of the least positive double.\<close>

lemma on_grid_0 [simp]: "on_grid 0"
  unfolding on_grid_def by (rule exI [of _ 0]) simp

lemma on_grid_diff:
  assumes "on_grid a" "on_grid b"
  shows "on_grid (a - b)"
proof -
  from assms obtain m n :: int where "a = of_int m * 2 powi (- 1074)" "b = of_int n * 2 powi (- 1074)"
    unfolding on_grid_def by blast
  then have "a - b = of_int (m - n) * 2 powi (- 1074)"
    by (simp add: algebra_simps)
  then show ?thesis
    unfolding on_grid_def by blast
qed

lemma on_grid_abs:
  assumes "on_grid a"
  shows "on_grid \<bar>a\<bar>"
proof -
  from assms obtain m :: int where "a = of_int m * 2 powi (- 1074)"
    unfolding on_grid_def by blast
  then have "\<bar>a\<bar> = of_int \<bar>m\<bar> * 2 powi (- 1074)"
    by (simp add: abs_mult)
  then show ?thesis
    unfolding on_grid_def by blast
qed

lemma round_grid_on_grid: "on_grid (round_grid x)"
proof -
  define e where "e = exponent x"
  define k where "k = round_even (\<bar>x\<bar> / 2 powi e)"
  define s :: int where "s = (if x < 0 then - 1 else if x = 0 then 0 else 1)"
  have e: "- 1074 \<le> e"
    by (simp add: e_def exponent_def)
  have sg: "sgn x = of_int s"
    by (simp add: s_def sgn_real_def)
  have "(2::real) powi e = 2 powi ((e + 1074) + (- 1074))"
    by simp
  also have "\<dots> = 2 powi (e + 1074) * 2 powi (- 1074)"
    by (rule power_int_add) simp
  also have "(2::real) powi (e + 1074) = of_int (2 ^ nat (e + 1074))"
    using e by (simp add: power_int_def)
  finally have p: "(2::real) powi e = of_int (2 ^ nat (e + 1074)) * 2 powi (- 1074)" .
  have "round_grid x = of_int s * (of_int k * 2 powi e)"
    by (simp add: round_grid_def e_def k_def sg)
  also have "\<dots> = of_int (s * k * 2 ^ nat (e + 1074)) * 2 powi (- 1074)"
    by (simp add: p)
  finally show ?thesis
    unfolding on_grid_def by blast
qed

lemma round_double_on_grid: "round_double x = Fin v \<Longrightarrow> on_grid v"
  using round_grid_on_grid [of x] by (auto simp: round_double_def split: if_splits)

lemma jmul_on_grid: "jmul a b = Fin v \<Longrightarrow> on_grid v"
  by (cases a; cases b) (auto simp: round_double_on_grid split: if_splits)

lemma round_double_least: "round_double (2 powi (- 1074)) = Fin (2 powi (- 1074))"
proof -
  define p where "p = (2::real) powi (- 1074)"
  have g: "round_grid p = p"
    unfolding p_def by (rule round_grid_pow2) simp
  have "0 < p" "p \<le> 1"
    unfolding p_def by simp_all
  then have "\<not> 2 ^ 1024 \<le> \<bar>p\<bar>" "p \<noteq> 0"
    by simp_all
  then have "round_double p = Fin p"
    by (simp add: round_double_def g)
  then show ?thesis
    unfolding p_def .
qed

text \<open>The sign of a rounded difference of doubles is the sign of the difference.\<close>

lemma round_double_pos_iff:
  assumes "on_grid d"
  shows "jlt (Fin 0) (round_double d) \<longleftrightarrow> 0 < d"
proof
  assume pos: "0 < d"
  from assms obtain m :: int where m: "d = of_int m * 2 powi (- 1074)"
    unfolding on_grid_def by blast
  have "0 < (of_int m :: real)"
    using pos unfolding m by (simp add: zero_less_mult_iff)
  then have "1 \<le> (of_int m :: real)"
    by simp
  then have "1 * 2 powi (- 1074) \<le> (of_int m :: real) * 2 powi (- 1074)"
    by (intro mult_right_mono) simp_all
  then have "2 powi (- 1074) \<le> d"
    unfolding m by simp
  from round_double_lower [OF round_double_least this]
  show "jlt (Fin 0) (round_double d)"
    by (cases "round_double d") simp_all
next
  assume lt: "jlt (Fin 0) (round_double d)"
  show "0 < d"
  proof (rule ccontr)
    assume "\<not> 0 < d"
    then have "d \<le> 0"
      by simp
    from round_double_upper [OF round_double_0 this] lt show False
      by (cases "round_double d") simp_all
  qed
qed

lemma abs_difference_sign:
  assumes "on_grid a" "on_grid b"
  shows "jlt (Fin 0) (jsub (Fin \<bar>b\<bar>) (Fin \<bar>a\<bar>)) \<longleftrightarrow> \<bar>a\<bar> < \<bar>b\<bar>"
proof (cases "a = 0")
  case True
  then show ?thesis
    by (simp add: jsub_def)
next
  case False
  have "on_grid (\<bar>b\<bar> - \<bar>a\<bar>)"
    using assms by (intro on_grid_diff on_grid_abs)
  from round_double_pos_iff [OF this] show ?thesis
    using False by (simp add: jsub_def)
qed

text \<open>
  The comparator of the sort puts \<open>b\<close> before \<open>a\<close> exactly when \<open>b\<close> ranks before \<open>a\<close>, as long
  as neither contribution is \<open>NaN\<close>.
\<close>

lemma by_abs_effect_rank:
  assumes "effect a \<noteq> NaN" "effect b \<noteq> NaN"
    and "\<And>v. effect a = Fin v \<Longrightarrow> on_grid v" "\<And>v. effect b = Fin v \<Longrightarrow> on_grid v"
  shows "jgt (by_abs_effect a b) (Fin 0) \<longleftrightarrow> rank_key (effect b) < rank_key (effect a)"
proof (cases "isFinite (effect a) \<and> isFinite (effect b)")
  case False
  then show ?thesis
    using assms(1,2)
    by (cases "effect a"; cases "effect b")
      (simp_all add: by_abs_effect_def jgt_def jsub_def rank_key_def less_prod_def)
next
  case True
  define x where "x = (case effect a of Fin v \<Rightarrow> v | _ \<Rightarrow> 0)"
  define y where "y = (case effect b of Fin v \<Rightarrow> v | _ \<Rightarrow> 0)"
  have gx: "on_grid x" and gy: "on_grid y"
    using assms(3,4) by (auto simp: x_def y_def split: jsnum.splits)
  have ax: "Math_abs (effect a) = Fin \<bar>x\<bar>" "rank_key (effect a) = (1, - \<bar>x\<bar>)"
    using True by (cases "effect a"; simp add: x_def rank_key_def)+
  have ay: "Math_abs (effect b) = Fin \<bar>y\<bar>" "rank_key (effect b) = (1, - \<bar>y\<bar>)"
    using True by (cases "effect b"; simp add: y_def rank_key_def)+
  show ?thesis
    using abs_difference_sign [OF gx gy]
    by (simp add: by_abs_effect_def jgt_def ax ay less_prod_def)
qed

lemma rank_position_le:
  fixes a b :: "nat \<times> real" and i j :: nat
  assumes "i < j"
  shows "(a, i) \<le> (b, j) \<longleftrightarrow> \<not> b < a"
proof -
  have "(a, i) \<le> (b, j) \<longleftrightarrow> a < b \<or> a \<le> b \<and> i \<le> j"
    by (rule less_eq_prod_simp)
  then show ?thesis
    using assms by auto
qed

text \<open>
  Inserting the contribution of feature \<open>i\<close> into a list of contributions of later
  features is the library's insertion of \<open>i\<close> by the key (rank of the contribution,
  position), as long as no contribution is \<open>NaN\<close>.
\<close>

lemma insert_by_index:
  assumes "\<And>j. j \<in> set L \<Longrightarrow> i < j"
    and "\<And>j. j \<in> insert i (set L) \<Longrightarrow> effect (cs ! j) = es ! j"
    and "\<And>j. j \<in> insert i (set L) \<Longrightarrow> es ! j \<noteq> NaN"
    and "\<And>j v. j \<in> insert i (set L) \<Longrightarrow> es ! j = Fin v \<Longrightarrow> on_grid v"
  shows "insert_by by_abs_effect (cs ! i) (map ((!) cs) L) =
         map ((!) cs) (insort_key (\<lambda>j. (rank_key (es ! j), j)) i L)"
  using assms
proof (induction L)
  case Nil
  then show ?case
    by simp
next
  case (Cons j L)
  have ij: "i < j"
    using Cons.prems(1) by simp
  have ei: "effect (cs ! i) = es ! i" and ej: "effect (cs ! j) = es ! j"
    using Cons.prems(2) by simp_all
  have ni: "es ! i \<noteq> NaN" and nj: "es ! j \<noteq> NaN"
    using Cons.prems(3) by simp_all
  have gi: "on_grid v" if "es ! i = Fin v" for v
    using Cons.prems(4) [of i v] that by simp
  have gj: "on_grid v" if "es ! j = Fin v" for v
    using Cons.prems(4) [of j v] that by simp
  have cmp: "jgt (by_abs_effect (cs ! i) (cs ! j)) (Fin 0) \<longleftrightarrow>
             rank_key (es ! j) < rank_key (es ! i)"
    using by_abs_effect_rank [of "cs ! i" "cs ! j"] ni nj gi gj by (simp add: ei ej)
  have key: "((rank_key (es ! i), i) \<le> (rank_key (es ! j), j)) \<longleftrightarrow>
             \<not> rank_key (es ! j) < rank_key (es ! i)"
    using ij by (rule rank_position_le)
  have IH: "insert_by by_abs_effect (cs ! i) (map ((!) cs) L) =
         map ((!) cs) (insort_key (\<lambda>j. (rank_key (es ! j), j)) i L)"
  proof (rule Cons.IH)
    fix k assume "k \<in> set L"
    then show "i < k"
      using Cons.prems(1) by simp
  next
    fix k assume "k \<in> insert i (set L)"
    then show "effect (cs ! k) = es ! k"
      using Cons.prems(2) [of k] by auto
  next
    fix k assume "k \<in> insert i (set L)"
    then show "es ! k \<noteq> NaN"
      using Cons.prems(3) [of k] by auto
  next
    fix k v assume "k \<in> insert i (set L)" "es ! k = Fin v"
    then show "on_grid v"
      using Cons.prems(4) [of k v] by auto
  qed
  show ?case
    using cmp key IH by simp
qed

lemma Array_sort_index:
  assumes "\<And>j. j < n \<Longrightarrow> effect (cs ! j) = es ! j"
    and "\<And>j. j < n \<Longrightarrow> es ! j \<noteq> NaN"
    and "\<And>j v. j < n \<Longrightarrow> es ! j = Fin v \<Longrightarrow> on_grid v"
  shows "i \<le> n \<Longrightarrow> Array_sort by_abs_effect (map ((!) cs) [i..<n]) =
         map ((!) cs) (sort_key (\<lambda>j. (rank_key (es ! j), j)) [i..<n])"
proof (induction "n - i" arbitrary: i)
  case 0
  then show ?case
    by (simp add: Array_sort_def)
next
  case (Suc d)
  then have lt: "i < n" and d: "d = n - Suc i" and le: "Suc i \<le> n"
    by simp_all
  let ?K = "\<lambda>j. (rank_key (es ! j), j)"
  let ?L = "sort_key ?K [Suc i..<n]"
  have IH: "Array_sort by_abs_effect (map ((!) cs) [Suc i..<n]) = map ((!) cs) ?L"
    using Suc.hyps(1) [OF d le] .
  have setL: "set ?L = {Suc i..<n}"
    by simp
  have below: "\<And>j. j \<in> insert i (set ?L) \<Longrightarrow> j < n"
    using setL lt by auto
  have ins: "insert_by by_abs_effect (cs ! i) (map ((!) cs) ?L) =
         map ((!) cs) (insort_key ?K i ?L)"
  proof (rule insert_by_index)
    fix j assume "j \<in> set ?L"
    then show "i < j"
      using setL by simp
  next
    fix j assume "j \<in> insert i (set ?L)"
    then show "effect (cs ! j) = es ! j"
      by (intro assms(1) below)
  next
    fix j assume "j \<in> insert i (set ?L)"
    then show "es ! j \<noteq> NaN"
      by (intro assms(2) below)
  next
    fix j v assume "j \<in> insert i (set ?L)" "es ! j = Fin v"
    then show "on_grid v"
      using assms(3) below by blast
  qed
  have "Array_sort by_abs_effect (map ((!) cs) [i..<n]) =
        insert_by by_abs_effect (cs ! i) (Array_sort by_abs_effect (map ((!) cs) [Suc i..<n]))"
    using lt by (simp add: Array_sort_def upt_conv_Cons)
  also have "\<dots> = map ((!) cs) (insort_key ?K i ?L)"
    by (simp only: IH ins)
  also have "\<dots> = map ((!) cs) (sort_key ?K [i..<n])"
    using lt by (simp add: upt_conv_Cons sort_key_def)
  finally show ?case .
qed

lemma length_contributions [simp]: "length (contributions m rawX zX) = 9"
  by (simp add: contributions_def)

lemma contributions_nth:
  "j < 9 \<Longrightarrow> contributions m rawX zX ! j =
     \<lparr>c_feature = name (featureDefs ! j), c_value = num_at rawX j,
      effect = jmul (num_at (weights m) j) (num_at zX j)\<rparr>"
  by (simp add: contributions_def)

lemma length_spec_effects [simp]: "length (spec_effects Number row m) = 9"
  by (simp add: spec_effects_def)

lemma spec_effects_nth:
  "j < 9 \<Longrightarrow> spec_effects Number row m ! j =
     jmul (num_at (weights m) j)
       (jdiv (jsub (featureVector Number (raw row) ! j) (num_at (means m) j))
             (num_at (stds m) j))"
  by (simp add: spec_effects_def num_at_def)

text \<open>The contributions that \<open>scoreRow\<close> computes are those of the specification.\<close>

lemma effect_spec:
  assumes "j < 9"
  shows "effect (contributions m (featureVector Number (raw row))
            (standardize (means m) (stds m) (featureVector Number (raw row))) ! j)
         = spec_effects Number row m ! j"
  using assms by (simp add: contributions_nth spec_effects_nth standardize_nth num_at_def)

lemma to_driver_spec:
  "to_driver c = \<lparr>feature = c_feature c, direction = spec_direction (effect c),
                  impact = spec_impact (effect c)\<rparr>"
  by (cases "effect c") (simp_all add: to_driver_def jge_def spec_direction_def spec_impact_def)

lemma riskDrivers_eq:
  "riskDrivers (scoreRow Number row m) =
     map to_driver (take 5 (Array_sort by_abs_effect
       (contributions m (featureVector Number (raw row))
          (standardize (means m) (stds m) (featureVector Number (raw row))))))"
  by (simp add: scoreRow_def Let_def model_row.extend_def)

lemma overflow_raw: "raw (toModelRow example_Number overflow_record 0) = overflow_record"
  by (simp add: toModelRow_def Let_def)

lemma tiny_std_model_finite: "finite_model tiny_std_model"
  by (simp add: finite_model_def tiny_std_model_def list_all_iff)

lemma tiny_effects:
  "spec_effects example_Number (toModelRow example_Number overflow_record 0) tiny_std_model =
     [Fin 0, Fin 0, Fin 0, Fin 0, NaN, Fin 0, Fin 0, Fin 0, Fin 21]"
proof -
  define p where "p = (2::real) powi (- 1074)"
  have p: "p \<noteq> 0" "2 ^ 1024 \<le> 3 / p"
    unfolding p_def by simp_all
  have q: "round_double (3 / p) = PInf"
    using p(2) by (rule round_double_overflow)
  have m: "tiny_std_model =
     \<lparr>weights = map Fin [0, 0, 0, 0, 0, 0, 0, 0, 7], bias = Fin 0,
      means = replicate 9 (Fin 0), stds = map Fin [1, 1, 1, 1, p, 1, 1, 1, 1]\<rparr>"
    by (simp only: tiny_std_model_def p_def)
  show ?thesis
    by (simp add: spec_effects_def upt_9 num_at_def overflow_raw overflow_features m jsub_def p(1) q)
qed

lemma tiny_contributions:
  "contributions tiny_std_model (featureVector example_Number overflow_record)
     (standardize (means tiny_std_model) (stds tiny_std_model)
        (featureVector example_Number overflow_record)) =
   [\<lparr>c_feature = ''Account Tenure'', c_value = Fin 0, effect = Fin 0\<rparr>,
    \<lparr>c_feature = ''International Plan'', c_value = Fin 0, effect = Fin 0\<rparr>,
    \<lparr>c_feature = ''Voicemail Plan'', c_value = Fin 0, effect = Fin 0\<rparr>,
    \<lparr>c_feature = ''Voicemail Usage'', c_value = Fin 0, effect = Fin 0\<rparr>,
    \<lparr>c_feature = ''Day Usage'', c_value = Fin 3, effect = NaN\<rparr>,
    \<lparr>c_feature = ''Evening Usage'', c_value = Fin 0, effect = Fin 0\<rparr>,
    \<lparr>c_feature = ''Night Usage'', c_value = Fin 0, effect = Fin 0\<rparr>,
    \<lparr>c_feature = ''International Usage'', c_value = Fin 0, effect = Fin 0\<rparr>,
    \<lparr>c_feature = ''Service Calls'', c_value = Fin 3, effect = Fin 21\<rparr>]"
  (is "?cs = ?rhs")
proof (rule nth_equalityI)
  show "length ?cs = length ?rhs"
    by simp
next
  fix j assume "j < length ?cs"
  then have j: "j < 9"
    by simp
  then have "effect (?cs ! j) =
      [Fin 0, Fin 0, Fin 0, Fin 0, NaN, Fin 0, Fin 0, Fin 0, Fin 21] ! j"
    using effect_spec [OF j, of tiny_std_model example_Number
        "toModelRow example_Number overflow_record 0"]
    by (simp only: overflow_raw tiny_effects)
  moreover have "j \<in> {0, 1, 2, 3, 4, 5, 6, 7, 8}"
    using j by auto
  ultimately show "?cs ! j = ?rhs ! j"
    using j
    by (auto simp: contributions_nth featureDefs_def overflow_features num_at_def)
qed

lemma tiny_riskDrivers:
  "riskDrivers (scoreRow example_Number (toModelRow example_Number overflow_record 0)
                  tiny_std_model) =
     [\<lparr>feature = ''Account Tenure'', direction = ''up'', impact = Fin 0\<rparr>,
      \<lparr>feature = ''International Plan'', direction = ''up'', impact = Fin 0\<rparr>,
      \<lparr>feature = ''Voicemail Plan'', direction = ''up'', impact = Fin 0\<rparr>,
      \<lparr>feature = ''Voicemail Usage'', direction = ''up'', impact = Fin 0\<rparr>,
      \<lparr>feature = ''Day Usage'', direction = ''down'', impact = NaN\<rparr>]"
  unfolding riskDrivers_eq overflow_raw tiny_contributions
  by (simp add: Array_sort_def by_abs_effect_def jgt_def jsub_def to_driver_def jge_def)

lemma tiny_spec_riskDrivers:
  "map feature (spec_riskDrivers example_Number (toModelRow example_Number overflow_record 0)
                  tiny_std_model) =
     [''Service Calls'', ''Account Tenure'', ''International Plan'', ''Voicemail Plan'',
      ''Voicemail Usage'']"
  unfolding spec_riskDrivers_def tiny_effects Let_def
  by (simp add: upt_9 rank_key_def less_eq_prod_def featureDefs_def)

text \<open>
  C7 as stated fails. \<open>tiny_std_model\<close> has finite weights and means and non-zero finite
  deviations, the one of the day minutes being the least positive double. On the record
  with 3 day minutes and 3 service calls the standardized day minutes overflow to
  \<open>+Infinity\<close>, and their contribution \<open>0 * Infinity\<close> is \<open>NaN\<close>; every comparison with it
  is undecided, so the service calls, whose contribution 21 is the largest of all, stay
  behind it and are not among the five drivers reported.
\<close>

theorem scoreRow_riskDrivers_counterexample:
  "finite_model tiny_std_model \<and>
   spec_effects example_Number (toModelRow example_Number overflow_record 0) tiny_std_model =
     [Fin 0, Fin 0, Fin 0, Fin 0, NaN, Fin 0, Fin 0, Fin 0, Fin 21] \<and>
   riskDrivers (scoreRow example_Number (toModelRow example_Number overflow_record 0)
                  tiny_std_model) =
     [\<lparr>feature = ''Account Tenure'', direction = ''up'', impact = Fin 0\<rparr>,
      \<lparr>feature = ''International Plan'', direction = ''up'', impact = Fin 0\<rparr>,
      \<lparr>feature = ''Voicemail Plan'', direction = ''up'', impact = Fin 0\<rparr>,
      \<lparr>feature = ''Voicemail Usage'', direction = ''up'', impact = Fin 0\<rparr>,
      \<lparr>feature = ''Day Usage'', direction = ''down'', impact = NaN\<rparr>] \<and>
   ''Service Calls'' \<notin> set (map feature
      (riskDrivers (scoreRow example_Number (toModelRow example_Number overflow_record 0)
                      tiny_std_model))) \<and>
   riskDrivers (scoreRow example_Number (toModelRow example_Number overflow_record 0)
                  tiny_std_model) \<noteq>
     spec_riskDrivers example_Number (toModelRow example_Number overflow_record 0)
       tiny_std_model"
proof -
  have "map feature (riskDrivers (scoreRow example_Number
          (toModelRow example_Number overflow_record 0) tiny_std_model)) \<noteq>
        map feature (spec_riskDrivers example_Number
          (toModelRow example_Number overflow_record 0) tiny_std_model)"
    unfolding tiny_riskDrivers tiny_spec_riskDrivers by simp
  then have "riskDrivers (scoreRow example_Number (toModelRow example_Number overflow_record 0)
                  tiny_std_model) \<noteq>
     spec_riskDrivers example_Number (toModelRow example_Number overflow_record 0)
       tiny_std_model"
    by auto
  moreover have "''Service Calls'' \<notin> set (map feature
      (riskDrivers (scoreRow example_Number (toModelRow example_Number overflow_record 0)
                      tiny_std_model)))"
    unfolding tiny_riskDrivers by simp
  ultimately show ?thesis
    using tiny_std_model_finite tiny_effects tiny_riskDrivers by simp
qed

text \<open>
  C7, amended. For every model row and every trained model for which no contribution
  \<open>weight_j * standardizedValue_j\<close> is \<open>NaN\<close>, the risk drivers of the scored row are the
  specification's: the five features first in the ranking by descending absolute
  contribution (an infinite contribution before every finite one), equal absolute
  contributions in the order of the feature list, each with direction \<open>up\<close> iff its
  contribution is at least \<open>0\<close> and with its absolute contribution rounded to three
  decimals as impact.
\<close>

theorem scoreRow_riskDrivers:
  assumes "NaN \<notin> set (spec_effects Number row m)"
  shows "riskDrivers (scoreRow Number row m) = spec_riskDrivers Number row m"
proof -
  let ?x = "featureVector Number (raw row)"
  let ?cs = "contributions m ?x (standardize (means m) (stds m) ?x)"
  let ?es = "spec_effects Number row m"
  let ?K = "\<lambda>j. (rank_key (?es ! j), j)"
  have eff: "\<And>j. j < 9 \<Longrightarrow> effect (?cs ! j) = ?es ! j"
    by (rule effect_spec)
  have nn: "\<And>j. j < 9 \<Longrightarrow> ?es ! j \<noteq> NaN"
    using assms by (metis length_spec_effects nth_mem)
  have gr: "\<And>j v. j < 9 \<Longrightarrow> ?es ! j = Fin v \<Longrightarrow> on_grid v"
    using jmul_on_grid by (simp add: spec_effects_nth)
  have cs: "?cs = map ((!) ?cs) [0..<9]"
    using map_nth [of ?cs] by simp
  have sorted: "Array_sort by_abs_effect ?cs = map ((!) ?cs) (sort_key ?K [0..<9])"
    using Array_sort_index [of 9 ?cs ?es 0, OF eff nn gr] cs by simp
  have in9: "\<And>j. j \<in> set (take 5 (sort_key ?K [0..<9])) \<Longrightarrow> j < 9"
    by (auto dest!: in_set_takeD)
  have "riskDrivers (scoreRow Number row m) =
        map to_driver (take 5 (Array_sort by_abs_effect ?cs))"
    by (rule riskDrivers_eq)
  also have "\<dots> = map (\<lambda>j. to_driver (?cs ! j)) (take 5 (sort_key ?K [0..<9]))"
    by (simp only: sorted take_map map_map comp_def)
  also have "\<dots> = spec_riskDrivers Number row m"
    unfolding spec_riskDrivers_def Let_def length_featureDefs
  proof (rule map_cong [OF refl])
    fix j assume "j \<in> set (take 5 (sort_key ?K [0..<9]))"
    then have j: "j < 9"
      by (rule in9)
    have "c_feature (?cs ! j) = name (featureDefs ! j)"
      using j by (simp add: contributions_nth)
    then show "to_driver (?cs ! j) =
        \<lparr>feature = name (featureDefs ! j),
         direction = spec_direction (?es ! j),
         impact = spec_impact (?es ! j)\<rparr>"
      using eff [OF j] by (simp add: to_driver_spec)
  qed
  finally show ?thesis .
qed

lemma example_effects:
  "spec_effects example_Number (toModelRow example_Number example_record 0) example_model =
     [Fin 0, NZero, Fin 0, Fin 0, Fin 0, NZero, Fin 0, Fin 0, Fin 6]"
  by (simp add: spec_effects_def upt_9 num_at_def example_raw example_features example_model_def
      jsub_def)

lemma example_spec_riskDrivers:
  "spec_riskDrivers example_Number (toModelRow example_Number example_record 0) example_model =
     [\<lparr>feature = ''Service Calls'', direction = ''up'', impact = Fin 6\<rparr>,
      \<lparr>feature = ''Account Tenure'', direction = ''up'', impact = Fin 0\<rparr>,
      \<lparr>feature = ''International Plan'', direction = ''up'', impact = Fin 0\<rparr>,
      \<lparr>feature = ''Voicemail Plan'', direction = ''up'', impact = Fin 0\<rparr>,
      \<lparr>feature = ''Voicemail Usage'', direction = ''up'', impact = Fin 0\<rparr>]"
  unfolding spec_riskDrivers_def example_effects Let_def
  by (simp add: upt_9 rank_key_def less_eq_prod_def featureDefs_def spec_direction_def
      spec_impact_def)

theorem scoreRow_riskDrivers_witness:
  "NaN \<notin> set (spec_effects example_Number (toModelRow example_Number example_record 0)
                 example_model) \<and>
   riskDrivers (scoreRow example_Number (toModelRow example_Number example_record 0)
                  example_model) =
     [\<lparr>feature = ''Service Calls'', direction = ''up'', impact = Fin 6\<rparr>,
      \<lparr>feature = ''Account Tenure'', direction = ''up'', impact = Fin 0\<rparr>,
      \<lparr>feature = ''International Plan'', direction = ''up'', impact = Fin 0\<rparr>,
      \<lparr>feature = ''Voicemail Plan'', direction = ''up'', impact = Fin 0\<rparr>,
      \<lparr>feature = ''Voicemail Usage'', direction = ''up'', impact = Fin 0\<rparr>]"
proof -
  have n: "NaN \<notin> set (spec_effects example_Number
                 (toModelRow example_Number example_record 0) example_model)"
    unfolding example_effects by simp
  from scoreRow_riskDrivers [OF n] n show ?thesis
    unfolding example_spec_riskDrivers by simp
qed


section \<open>Ground-truth label\<close>

lemma char_by_code: "of_char c = (n::nat) \<Longrightarrow> c = char_of n"
  by (metis char_of_char)

lemma isSpace_iff: "isSpace c \<longleftrightarrow> c \<in> spec_whitespace"
proof
  assume "isSpace c"
  then have "of_char c \<in> {9, 10, 11, 12, 13, 32, 160 :: nat}"
    by (simp add: isSpace_def)
  then have "c \<in> {char_of (9::nat), char_of (10::nat), char_of (11::nat), char_of (12::nat),
                  char_of (13::nat), char_of (32::nat), char_of (160::nat)}"
    by (auto dest: char_by_code)
  moreover have "char_of (9::nat) = CHR 0x09" "char_of (10::nat) = CHR 0x0A"
    "char_of (11::nat) = CHR 0x0B" "char_of (12::nat) = CHR 0x0C" "char_of (13::nat) = CHR 0x0D"
    "char_of (32::nat) = CHR 0x20" "char_of (160::nat) = CHR 0xA0"
    by (simp_all add: char_of_eq_iff)
  ultimately show "c \<in> spec_whitespace"
    by (simp add: spec_whitespace_def)
next
  assume "c \<in> spec_whitespace"
  then show "isSpace c"
    by (auto simp: spec_whitespace_def isSpace_def)
qed

lemma lower_char_cases:
  "lower_char c = c \<or> (\<exists>n. of_char c = n \<and> ((65 \<le> n \<and> n \<le> 90) \<or> (192 \<le> n \<and> n \<le> 222)) \<and>
      (of_char (lower_char c) :: nat) = n + 32)"
proof -
  have "(of_char c :: nat) < 256"
    by simp
  then show ?thesis
    by (auto simp: lower_char_def Let_def)
qed

lemma lower_char_is:
  assumes "(of_char x :: nat) = k" "97 \<le> k" "k \<le> 122"
  shows "lower_char c = x \<longleftrightarrow> c = x \<or> c = char_of (k - 32)"
proof
  assume l: "lower_char c = x"
  from lower_char_cases [of c] show "c = x \<or> c = char_of (k - 32)"
  proof
    assume "lower_char c = c"
    with l show ?thesis by simp
  next
    assume "\<exists>n. of_char c = n \<and> ((65 \<le> n \<and> n \<le> 90) \<or> (192 \<le> n \<and> n \<le> 222)) \<and>
      (of_char (lower_char c) :: nat) = n + 32"
    then obtain n where n: "of_char c = n" "(of_char (lower_char c) :: nat) = n + 32"
      by blast
    with l assms have "n = k - 32"
      by simp
    with n(1) show ?thesis
      by (auto dest: char_by_code)
  qed
next
  assume "c = x \<or> c = char_of (k - 32)"
  then show "lower_char c = x"
  proof
    assume "c = x"
    then show ?thesis
      using assms by (simp add: lower_char_def Let_def)
  next
    assume c: "c = char_of (k - 32)"
    have "(of_char c :: nat) = k - 32"
      using assms by (simp add: c)
    then show ?thesis
      using assms by (auto simp: lower_char_def Let_def intro!: of_char_eqI)
  qed
qed

lemma lower_t: "lower_char c = CHR ''t'' \<longleftrightarrow> c \<in> {CHR ''t'', CHR ''T''}"
proof -
  have "char_of (116 - 32 :: nat) = CHR ''T''"
    by (simp add: char_of_eq_iff)
  then show ?thesis
    using lower_char_is [of "CHR ''t''" 116 c] by auto
qed

lemma lower_r: "lower_char c = CHR ''r'' \<longleftrightarrow> c \<in> {CHR ''r'', CHR ''R''}"
proof -
  have "char_of (114 - 32 :: nat) = CHR ''R''"
    by (simp add: char_of_eq_iff)
  then show ?thesis
    using lower_char_is [of "CHR ''r''" 114 c] by auto
qed

lemma lower_u: "lower_char c = CHR ''u'' \<longleftrightarrow> c \<in> {CHR ''u'', CHR ''U''}"
proof -
  have "char_of (117 - 32 :: nat) = CHR ''U''"
    by (simp add: char_of_eq_iff)
  then show ?thesis
    using lower_char_is [of "CHR ''u''" 117 c] by auto
qed

lemma lower_e: "lower_char c = CHR ''e'' \<longleftrightarrow> c \<in> {CHR ''e'', CHR ''E''}"
proof -
  have "char_of (101 - 32 :: nat) = CHR ''E''"
    by (simp add: char_of_eq_iff)
  then show ?thesis
    using lower_char_is [of "CHR ''e''" 101 c] by auto
qed

lemma toLowerCase_true: "toLowerCase s = ''true'' \<longleftrightarrow> spells_true s"
proof (cases s)
  case Nil
  then show ?thesis by (simp add: toLowerCase_def spells_true_def)
next
  case s1: (Cons a s1)
  show ?thesis
  proof (cases s1)
    case Nil
    with s1 show ?thesis by (simp add: toLowerCase_def spells_true_def)
  next
    case s2: (Cons b s2)
    show ?thesis
    proof (cases s2)
      case Nil
      with s1 s2 show ?thesis by (simp add: toLowerCase_def spells_true_def)
    next
      case s3: (Cons c s3)
      show ?thesis
      proof (cases s3)
        case Nil
        with s1 s2 s3 show ?thesis by (simp add: toLowerCase_def spells_true_def)
      next
        case s4: (Cons d s4)
        show ?thesis
        proof (cases s4)
          case Nil
          with s1 s2 s3 s4 show ?thesis
            by (simp add: toLowerCase_def spells_true_def lower_t lower_r lower_u lower_e)
        next
          case (Cons e s5)
          with s1 s2 s3 s4 show ?thesis by (simp add: toLowerCase_def spells_true_def)
        qed
      qed
    qed
  qed
qed

lemma spells_true_ends:
  assumes "spells_true core"
  shows "core \<noteq> [] \<and> \<not> isSpace (hd core) \<and> \<not> isSpace (last core)"
proof -
  from assms obtain a b c d where core: "core = [a, b, c, d]" "a \<in> {CHR ''t'', CHR ''T''}"
    "d \<in> {CHR ''e'', CHR ''E''}"
    by (auto simp: spells_true_def split: list.splits)
  then show ?thesis
    by (auto simp: isSpace_def)
qed

lemma trim_sandwich:
  assumes "set pre \<subseteq> spec_whitespace" "set post \<subseteq> spec_whitespace" "core \<noteq> []"
    "\<not> isSpace (hd core)" "\<not> isSpace (last core)"
  shows "trim (pre @ core @ post) = core"
proof -
  have pre: "\<forall>c \<in> set pre. isSpace c" and post: "\<forall>c \<in> set (rev post). isSpace c"
    using assms(1,2) by (auto simp: isSpace_iff)
  have "dropWhile isSpace (pre @ core @ post) = core @ post"
    using pre assms(3,4) by (cases core) (simp_all add: dropWhile_append)
  moreover have "dropWhile isSpace (rev (core @ post)) = rev core"
    using post assms(3,5) by (cases core rule: rev_cases) (simp_all add: dropWhile_append)
  ultimately show ?thesis
    by (simp add: trim_def)
qed

lemma trim_decomp:
  "s = takeWhile isSpace s @ trim s @ rev (takeWhile isSpace (rev (dropWhile isSpace s)))"
proof -
  let ?u = "dropWhile isSpace s"
  have "?u = rev (rev ?u)"
    by simp
  also have "\<dots> = rev (takeWhile isSpace (rev ?u) @ dropWhile isSpace (rev ?u))"
    by (simp only: takeWhile_dropWhile_id)
  also have "\<dots> = trim s @ rev (takeWhile isSpace (rev ?u))"
    by (simp only: rev_append trim_def)
  finally have "?u = trim s @ rev (takeWhile isSpace (rev ?u))" .
  moreover have "s = takeWhile isSpace s @ ?u"
    by simp
  ultimately show ?thesis
    by simp
qed

lemma trim_says_true: "toLowerCase (trim s) = ''true'' \<longleftrightarrow> says_true s"
proof
  assume "toLowerCase (trim s) = ''true''"
  then have sp: "spells_true (trim s)"
    by (simp add: toLowerCase_true)
  have "set (takeWhile isSpace s) \<subseteq> spec_whitespace"
    by (auto dest: set_takeWhileD simp: isSpace_iff)
  moreover have "set (rev (takeWhile isSpace (rev (dropWhile isSpace s)))) \<subseteq> spec_whitespace"
    by (auto dest: set_takeWhileD simp: isSpace_iff)
  ultimately show "says_true s"
    unfolding says_true_def using trim_decomp [of s] sp by blast
next
  assume "says_true s"
  then obtain pre core post where s: "s = pre @ core @ post" "set pre \<subseteq> spec_whitespace"
    "set post \<subseteq> spec_whitespace" "spells_true core"
    unfolding says_true_def by blast
  from spells_true_ends [OF s(4)] have "trim s = core"
    unfolding s(1) using s(2,3) by (intro trim_sandwich) simp_all
  then show "toLowerCase (trim s) = ''true''"
    using s(4) by (simp add: toLowerCase_true)
qed

lemma says_true_undefined: "\<not> says_true ''undefined''"
proof -
  have "toLowerCase (trim ''undefined'') \<noteq> ''true''"
    by (simp add: trim_def toLowerCase_def isSpace_def)
  then show ?thesis
    by (simp add: trim_says_true)
qed

text \<open>
  C10. For every raw record and index the label of the model row is 1 if the record has a
  \<open>churn\<close> field that, with white space taken off both ends, is the word \<open>true\<close> in any
  mix of upper and lower case, and 0 for every other value of the field and for a record
  without the field. \<open>toModelRow\<close> has no failing branch.
\<close>

theorem toModelRow_label:
  "actualChurn (toModelRow Number row idx) =
     (case row ''churn'' of None \<Rightarrow> 0 | Some s \<Rightarrow> if says_true s then 1 else 0)"
  by (simp add: toModelRow_def Let_def String_of_def trim_says_true says_true_undefined
      split: option.split)

lemma says_true_example: "says_true '' True ''"
proof -
  have "'' True '' = '' '' @ ''True'' @ '' ''"
    by simp
  moreover have "set '' '' \<subseteq> spec_whitespace"
    by (simp add: spec_whitespace_def)
  moreover have "spells_true ''True''"
    by (simp add: spells_true_def)
  ultimately show ?thesis
    unfolding says_true_def by blast
qed

lemma says_true_yes: "\<not> says_true ''yes''"
proof -
  have "toLowerCase (trim ''yes'') \<noteq> ''true''"
    by (simp add: trim_def toLowerCase_def isSpace_def)
  then show ?thesis
    by (simp add: trim_says_true)
qed

theorem toModelRow_label_witness:
  "actualChurn (toModelRow example_Number example_record 0) = 1 \<and>
   actualChurn (toModelRow example_Number (example_record(''churn'' \<mapsto> ''yes'')) 0) = 0 \<and>
   actualChurn (toModelRow example_Number (example_record(''churn'' := None)) 0) = 0"
proof -
  have "example_record ''churn'' = Some '' True ''"
    by (simp add: example_record_def)
  then show ?thesis
    using toModelRow_label [of example_Number example_record 0]
      toModelRow_label [of example_Number "example_record(''churn'' \<mapsto> ''yes'')" 0]
      toModelRow_label [of example_Number "example_record(''churn'' := None)" 0]
      says_true_example says_true_yes
    by simp
qed

section \<open>Alerts\<close>

lemma critical_fold:
  "foldl (\<lambda>alerts p. if jgt (avgRisk p) (Fin 62)
                      then alerts @ [critical_alert show_num (Date_now (length alerts)) p]
                      else alerts) acc pms =
   acc @ map (\<lambda>(k, p). critical_alert show_num (Date_now k) p)
             (enumerate (length acc) (filter (\<lambda>p. jgt (avgRisk p) (Fin 62)) pms))"
  by (induction pms arbitrary: acc) simp_all

lemma buildAlerts_eq:
  "buildAlerts show_num Date_now pms h =
     take 8 (map (\<lambda>(k, p). critical_alert show_num (Date_now k) p)
               (enumerate 0 (filter (\<lambda>p. jgt (avgRisk p) (Fin 62)) pms))
             @ (if 40 < h
                then [warning_alert
                        (Date_now (length (filter (\<lambda>p. jgt (avgRisk p) (Fin 62)) pms))) h]
                else []))"
  by (simp add: buildAlerts_def Let_def critical_fold)

lemma severity_critical:
  "map severity (map (\<lambda>(k, p). critical_alert show_num (Date_now k) p) (enumerate n ps)) =
     replicate (length ps) ''critical''"
  by (induction ps arbitrary: n) (simp_all add: critical_alert_def)

lemma buildAlerts_severity:
  "map severity (buildAlerts show_num Date_now pms h) =
     take 8 (replicate (length (filter (\<lambda>p. jgt (avgRisk p) (Fin 62)) pms)) ''critical''
             @ (if 40 < h then [''warning''] else []))"
proof -
  have "map severity (buildAlerts show_num Date_now pms h) =
        take 8 (replicate (length (filter (\<lambda>p. jgt (avgRisk p) (Fin 62)) pms)) ''critical''
                @ map severity
                    (if 40 < h
                     then [warning_alert
                             (Date_now (length (filter (\<lambda>p. jgt (avgRisk p) (Fin 62)) pms))) h]
                     else []))"
    by (simp only: buildAlerts_eq take_map [symmetric] map_append severity_critical)
  then show ?thesis
    by (cases "40 < h") (simp_all add: warning_alert_def)
qed

text \<open>
  C6. For every list of segment summaries and every high-risk count, the alerts generated
  are one critical alert for each segment whose mean risk exceeds 62, in the order of the
  list, followed by one warning alert iff the high-risk count exceeds 40; \<open>buildAlerts\<close>
  returns the first 8 of them, so at most 8, and when more than 8 are generated it returns
  8 critical alerts: the warning is the one dropped.
\<close>

theorem buildAlerts_policy:
  fixes pms :: "platform_metric list"
  defines "hot \<equiv> filter (\<lambda>p. jgt (avgRisk p) (Fin 62)) pms"
  shows "buildAlerts show_num Date_now pms h =
           take 8 (map (\<lambda>(k, p). critical_alert show_num (Date_now k) p) (enumerate 0 hot)
                   @ (if 40 < h then [warning_alert (Date_now (length hot)) h] else [])) \<and>
         map severity (buildAlerts show_num Date_now pms h) =
           take 8 (replicate (length hot) ''critical'' @ (if 40 < h then [''warning''] else [])) \<and>
         length (buildAlerts show_num Date_now pms h) \<le> 8 \<and>
         (8 < length hot + (if 40 < h then 1 else 0) \<longrightarrow>
            map severity (buildAlerts show_num Date_now pms h) = replicate 8 ''critical'')"
proof -
  have a: "buildAlerts show_num Date_now pms h =
           take 8 (map (\<lambda>(k, p). critical_alert show_num (Date_now k) p) (enumerate 0 hot)
                   @ (if 40 < h then [warning_alert (Date_now (length hot)) h] else []))"
    unfolding hot_def by (rule buildAlerts_eq)
  have b: "map severity (buildAlerts show_num Date_now pms h) =
           take 8 (replicate (length hot) ''critical'' @ (if 40 < h then [''warning''] else []))"
    unfolding hot_def by (rule buildAlerts_severity)
  have c: "length (buildAlerts show_num Date_now pms h) \<le> 8"
    by (simp add: buildAlerts_eq)
  have d: "map severity (buildAlerts show_num Date_now pms h) = replicate 8 ''critical''"
    if "8 < length hot + (if 40 < h then 1 else 0)"
  proof -
    from that have "8 \<le> length hot"
      by (simp split: if_splits)
    then show ?thesis
      unfolding b by (simp add: min_def)
  qed
  from a b c d show ?thesis
    by blast
qed

theorem buildAlerts_policy_witness:
  "8 < length (filter (\<lambda>p. jgt (avgRisk p) (Fin 62)) (replicate 9 example_metric))
       + (if 40 < (41::nat) then 1 else 0) \<and>
   map severity (buildAlerts (\<lambda>x. ''70'') (\<lambda>k. 1000) (replicate 9 example_metric) 41)
     = replicate 8 ''critical''"
proof -
  have h: "8 < length (filter (\<lambda>p. jgt (avgRisk p) (Fin 62)) (replicate 9 example_metric))
       + (if 40 < (41::nat) then 1 else 0)"
    by (simp add: example_metric_def jgt_def)
  from buildAlerts_policy [of "\<lambda>x. ''70''" "\<lambda>k. 1000" "replicate 9 example_metric" 41] h
  show ?thesis
    by blast
qed

section \<open>The cyclic cursor\<close>

lemma draw_cursor:
  "rows \<noteq> [] \<Longrightarrow> snd (draw rows k c out) = (if k = 0 then c else (c + k) mod length rows)"
proof (induction k arbitrary: c out)
  case 0
  then show ?case
    by simp
next
  case (Suc k)
  have "((c + 1) mod length rows + k) mod length rows = (c + Suc k) mod length rows"
    by (simp add: mod_add_left_eq)
  with Suc show ?case
    by simp
qed

lemma draw_rows:
  "rows \<noteq> [] \<Longrightarrow> c < length rows \<Longrightarrow>
   fst (draw rows k c out) = out @ map (\<lambda>i. Some (rows ! ((c + i) mod length rows))) [0..<k]"
proof (induction k arbitrary: c out)
  case 0
  then show ?case
    by simp
next
  case (Suc k)
  have "map (\<lambda>i. Some (rows ! ((c + i) mod length rows))) [0..<Suc k] =
        Some (rows ! c) #
        map (\<lambda>i. Some (rows ! (((c + 1) mod length rows + i) mod length rows))) [0..<k]"
    using Suc.prems
    by (simp add: upt_conv_Cons map_Suc_upt [symmetric] mod_add_left_eq del: upt_Suc)
  with Suc show ?case
    by simp
qed

lemma draw_length: "length (fst (draw rows k c out)) = length out + k"
  by (induction k arbitrary: c out) simp_all

lemma nextBatch_empty: "nextBatch [] c k = ([], c)"
  by (simp add: nextBatch_def)

lemma nextBatch_cursor:
  "rows \<noteq> [] \<Longrightarrow> snd (nextBatch rows c 45) = (c + 45) mod length rows"
  by (simp add: nextBatch_def draw_cursor)

lemma nextBatch_rows:
  "rows \<noteq> [] \<Longrightarrow> c < length rows \<Longrightarrow>
   fst (nextBatch rows c k) = map (\<lambda>i. Some (rows ! ((c + i) mod length rows))) [0..<k]"
  by (simp add: nextBatch_def draw_rows)

lemma nextBatch_length: "length (fst (nextBatch rows c k)) \<le> k"
  by (simp add: nextBatch_def draw_length)

lemma consecutive_draws_eq:
  "rows \<noteq> [] \<Longrightarrow> c < length rows \<Longrightarrow>
   consecutive_draws rows c t =
     (map (\<lambda>k. Some (rows ! ((c + k) mod length rows))) [0..<45 * t],
      (c + 45 * t) mod length rows)"
proof (induction t arbitrary: c)
  case 0
  then show ?case
    by simp
next
  case (Suc t)
  let ?n = "length rows"
  let ?c = "(c + 45) mod ?n"
  have c2: "?c < ?n"
    using Suc.prems(1) by simp
  have rest: "consecutive_draws rows ?c t =
     (map (\<lambda>k. Some (rows ! ((?c + k) mod ?n))) [0..<45 * t], (?c + 45 * t) mod ?n)"
    using Suc.IH [OF Suc.prems(1) c2] .
  have "[45..<45 * t + 45] = map (\<lambda>i. i + 45) [0..<45 * t]"
    by (rule map_add_upt [symmetric])
  then have "map (\<lambda>k. Some (rows ! ((c + k) mod ?n))) [45..<45 * t + 45] =
        map (\<lambda>i. Some (rows ! ((c + (i + 45)) mod ?n))) [0..<45 * t]"
    by (simp only: map_map comp_def)
  also have "\<dots> = map (\<lambda>k. Some (rows ! ((?c + k) mod ?n))) [0..<45 * t]"
  proof (rule map_cong [OF refl])
    fix k
    have "(?c + k) mod ?n = (c + (k + 45)) mod ?n"
      by (simp add: mod_add_left_eq add.assoc add.commute [of 45 k])
    then show "Some (rows ! ((c + (k + 45)) mod ?n)) = Some (rows ! ((?c + k) mod ?n))"
      by simp
  qed
  finally have shift: "map (\<lambda>k. Some (rows ! ((?c + k) mod ?n))) [0..<45 * t] =
        map (\<lambda>k. Some (rows ! ((c + k) mod ?n))) [45..<45 + 45 * t]"
    by (simp add: add.commute)
  have split: "[0..<45 * Suc t] = [0..<45] @ [45..<45 + 45 * t]"
    using upt_add_eq_append [of 0 45 "45 * t"] by simp
  have cur: "(?c + 45 * t) mod ?n = (c + 45 * Suc t) mod ?n"
    by (simp add: mod_add_left_eq add.assoc)
  note nc = nextBatch_cursor [OF Suc.prems(1), of c]
    and nr = nextBatch_rows [OF Suc.prems, of 45]
  show ?case
    by (simp only: consecutive_draws.simps Let_def nc nr rest shift split map_append cur
        fst_conv snd_conv)
qed

lemma round_robin_index:
  assumes "c < n" "i < (n::nat)"
  shows "(i + n - c) mod n < n \<and> (c + (i + n - c) mod n) mod n = i"
proof -
  have "(c + (i + n - c) mod n) mod n = (c + (i + n - c)) mod n"
    by (simp add: mod_add_right_eq)
  also have "\<dots> = (i + n) mod n"
    using assms by simp
  also have "\<dots> = i"
    using assms by simp
  finally show ?thesis
    using assms by simp
qed

text \<open>
  C8 as stated fails for the empty dataset: the draw returns at once and the cursor keeps
  its value 0, which is not in the empty range \<open>[0, 0)\<close>.
\<close>

theorem nextBatch_empty_dataset_counterexample:
  "\<not> snd (nextBatch ([] :: nat list) 0 45) < length ([] :: nat list)"
  by (simp add: nextBatch_def)

text \<open>
  C8, amended. For every non-empty dataset the cursor is below the dataset size after a
  draw of 45, whatever it was before. Starting from a cursor in range, \<open>t\<close> consecutive
  draws leave the cursor at \<open>(c + 45 t) mod n\<close> and draw the rows round-robin, the \<open>k\<close>-th
  row drawn being the one at index \<open>(c + k) mod n\<close>; so once \<open>45 t\<close> reaches the dataset
  size every row has been drawn. For the empty dataset a draw returns no rows and leaves
  the cursor as it is.
\<close>

theorem nextBatch_round_robin:
  assumes "rows \<noteq> []"
  shows "snd (nextBatch rows c0 45) < length rows \<and>
         nextBatch ([] :: 'a list) c0 45 = ([], c0) \<and>
         (c < length rows \<longrightarrow>
            snd (consecutive_draws rows c t) = (c + 45 * t) mod length rows \<and>
            snd (consecutive_draws rows c t) < length rows \<and>
            fst (consecutive_draws rows c t) =
              map (\<lambda>k. Some (rows ! ((c + k) mod length rows))) [0..<45 * t] \<and>
            (length rows \<le> 45 * t \<longrightarrow>
               (\<forall>i < length rows. Some (rows ! i) \<in> set (fst (consecutive_draws rows c t)))))"
proof -
  let ?n = "length rows"
  have n: "0 < ?n"
    using assms by simp
  have "Some (rows ! i) \<in> set (fst (consecutive_draws rows c t))"
    if "c < ?n" "?n \<le> 45 * t" "i < ?n" for i
  proof -
    let ?k = "(i + ?n - c) mod ?n"
    have k: "?k < ?n" "(c + ?k) mod ?n = i"
      using round_robin_index [OF that(1) that(3)] by simp_all
    then have "?k \<in> set [0..<45 * t]"
      using that(2) by simp
    then have "Some (rows ! ((c + ?k) mod ?n)) \<in>
               (\<lambda>k. Some (rows ! ((c + k) mod ?n))) ` set [0..<45 * t]"
      by (rule imageI)
    then show ?thesis
      using k(2) by (simp add: consecutive_draws_eq [OF assms that(1)] del: set_upt)
  qed
  then show ?thesis
    using n by (auto simp: nextBatch_cursor [OF assms] nextBatch_empty consecutive_draws_eq [OF assms])
qed

theorem nextBatch_round_robin_witness:
  "[10, 20, 30 :: nat] \<noteq> [] \<and>
   snd (nextBatch [10, 20, 30 :: nat] 7 45) < length [10, 20, 30 :: nat] \<and>
   1 < length [10, 20, 30 :: nat] \<and>
   snd (consecutive_draws [10, 20, 30 :: nat] 1 2) = (1 + 45 * 2) mod length [10, 20, 30 :: nat] \<and>
   length [10, 20, 30 :: nat] \<le> 45 * 2 \<and>
   Some 10 \<in> set (fst (consecutive_draws [10, 20, 30 :: nat] 1 2)) \<and>
   Some 20 \<in> set (fst (consecutive_draws [10, 20, 30 :: nat] 1 2)) \<and>
   Some 30 \<in> set (fst (consecutive_draws [10, 20, 30 :: nat] 1 2))"
proof -
  have h1: "[10, 20, 30 :: nat] \<noteq> []"
    by simp
  have h2: "1 < length [10, 20, 30 :: nat]"
    by simp
  have h3: "length [10, 20, 30 :: nat] \<le> 45 * 2"
    by simp
  from nextBatch_round_robin [OF h1, of 7 1 2] h2 h3 have
    cur: "snd (nextBatch [10, 20, 30 :: nat] 7 45) < length [10, 20, 30 :: nat]"
      "snd (consecutive_draws [10, 20, 30 :: nat] 1 2) = (1 + 45 * 2) mod length [10, 20, 30 :: nat]"
    and all: "\<forall>i < length [10, 20, 30 :: nat].
      Some ([10, 20, 30 :: nat] ! i) \<in> set (fst (consecutive_draws [10, 20, 30 :: nat] 1 2))"
    by blast+
  from all [rule_format, of 0] all [rule_format, of 1] all [rule_format, of 2]
  have "Some 10 \<in> set (fst (consecutive_draws [10, 20, 30 :: nat] 1 2))"
    "Some 20 \<in> set (fst (consecutive_draws [10, 20, 30 :: nat] 1 2))"
    "Some 30 \<in> set (fst (consecutive_draws [10, 20, 30 :: nat] 1 2))"
    by simp_all
  with h1 h2 h3 cur show ?thesis
    by blast
qed

section \<open>Ticks\<close>

lemma slice_last_length: "length (slice_last k xs) \<le> k"
  by (simp add: slice_last_def)

lemma refreshState_bounded:
  assumes "bounded s" "refreshState show_num env s = Inr s2"
  shows "bounded s2"
  using assms
  by (auto simp: refreshState_def bounded_def Let_def slice_last_length
           split: prod.splits if_splits)

lemma refreshState_publishes_trend:
  "refreshState show_num env s = Inr s2 \<Longrightarrow> trend (snapshot s2) = trendWindow s2"
  by (auto simp: refreshState_def Let_def split: prod.splits if_splits)

lemma nextBatch_defined:
  assumes "rows = [] \<or> c < length rows"
  shows "None \<notin> set (fst (nextBatch rows c k))"
proof (cases "rows = []")
  case True
  then show ?thesis
    by (simp add: nextBatch_def)
next
  case False
  with assms have "c < length rows"
    by simp
  from nextBatch_rows [OF False this] show ?thesis
    by auto
qed

text \<open>A tick raises only when the cursor is past the end of a non-empty dataset; from a
  cursor in range every tick returns, and leaves the cursor in range.\<close>

lemma refreshState_returns:
  assumes "cursor_ok s"
  shows "\<exists>s2. refreshState show_num env s = Inr s2 \<and> cursor_ok s2"
proof -
  obtain drawn c2 where nb: "nextBatch (mappedRows s) (cursor s) 45 = (drawn, c2)"
    by (cases "nextBatch (mappedRows s) (cursor s) 45")
  have "None \<notin> set (fst (nextBatch (mappedRows s) (cursor s) 45))"
    using assms unfolding cursor_ok_def by (rule nextBatch_defined)
  then have ok: "None \<notin> set drawn"
    by (simp add: nb)
  have c2: "mappedRows s = [] \<or> c2 < length (mappedRows s)"
  proof (cases "mappedRows s = []")
    case True
    then show ?thesis
      by simp
  next
    case False
    from nextBatch_cursor [OF this, of "cursor s"] nb False show ?thesis
      by simp
  qed
  show ?thesis
    using ok c2 by (simp add: refreshState_def nb Let_def cursor_ok_def)
qed

lemma ticks_return:
  "cursor_ok s \<Longrightarrow> \<exists>s2. ticks show_num envs s = Inr s2"
proof (induction envs arbitrary: s)
  case Nil
  then show ?case
    by simp
next
  case (Cons env envs)
  from refreshState_returns [OF Cons.prems, of show_num env]
  obtain s1 where "refreshState show_num env s = Inr s1" "cursor_ok s1"
    by blast
  with Cons.IH [of s1] show ?case
    by simp
qed

lemma ticks_keep_bounded:
  "bounded s \<Longrightarrow> ticks show_num envs s = Inr s2 \<Longrightarrow> bounded s2"
proof (induction envs arbitrary: s)
  case Nil
  then show ?case
    by simp
next
  case (Cons env envs)
  then show ?case
    by (auto split: sum.splits dest: refreshState_bounded)
qed

text \<open>
  C4. From any state whose stream window has at most 620 entries, whose trend window has
  at most 24 and whose live feed has at most 30, every state reached by any number of
  ticks has a stream window of at most 620 entries, a trend window of at most 24 and a
  live feed of at most 30; and when the cursor is in range (as every reload and tick
  leaves it) the ticks do reach such a state, none of them raises.
\<close>

theorem ticks_bounded:
  assumes "bounded s"
  shows "(ticks show_num envs s = Inr s2 \<longrightarrow> bounded s2) \<and>
         (cursor_ok s \<longrightarrow> (\<exists>s3. ticks show_num envs s = Inr s3 \<and> bounded s3))"
proof -
  have "\<exists>s3. ticks show_num envs s = Inr s3 \<and> bounded s3" if co: "cursor_ok s"
  proof -
    obtain s3 where "ticks show_num envs s = Inr s3"
      using ticks_return [OF co] by blast
    then show ?thesis
      using ticks_keep_bounded [OF assms] by blast
  qed
  then show ?thesis
    using ticks_keep_bounded [OF assms] by blast
qed

lemma example_state_bounded: "bounded example_state"
  by (simp add: example_state_def initial_state_def bounded_def)

lemma example_state_cursor: "cursor_ok example_state"
  by (simp add: example_state_def initial_state_def cursor_ok_def)

theorem ticks_bounded_witness:
  "bounded example_state \<and> cursor_ok example_state \<and>
   (\<exists>s3. ticks (\<lambda>x. ''0'') [example_env, example_env, example_env] example_state = Inr s3 \<and>
         bounded s3)"
  using ticks_bounded [OF example_state_bounded,
      of "\<lambda>x. ''0''" "[example_env, example_env, example_env]"]
    example_state_bounded example_state_cursor
  by blast


end
